theory Spec2Isabelle
  imports Main
begin

section \<open>The outside world of the pool\<close>

text \<open>
  The pool of \<^verbatim>\<open>connectionpooling_original.py\<close> talks to three services it does not
  control: the token service (\<^verbatim>\<open>get_auth_token\<close>), the driver's \<^verbatim>\<open>psycopg2.connect\<close> and
  the \<^verbatim>\<open>SELECT 1\<close> round trip of the health check. Their outcomes are given by an
  oracle indexed by the number of the call, so that every sequence of successes and
  failures is some oracle.
\<close>

record env =
  mint_ok :: "nat \<Rightarrow> bool"
  open_ok :: "nat \<Rightarrow> bool"
  probe_ok :: "nat \<Rightarrow> bool"

text \<open>
  What the program does to the world is kept as a trace. A token is named by the number
  of the \<^verbatim>\<open>get_auth_token\<close> call that returned it, a connection by the number of
  successful \<^verbatim>\<open>psycopg2.connect\<close> calls before its own.
\<close>

datatype event =
    LockAcquire
  | LockRelease
  | Mint nat
  | Open nat
  | Probe nat
  | Close nat

record world =
  mint_calls :: nat
  open_calls :: nat
  probe_calls :: nat
  created :: nat
  closed_ids :: "nat set"
  now :: nat
  trace :: "event list"

definition emit :: "event list \<Rightarrow> world \<Rightarrow> world" where
  "emit es w = w\<lparr>trace := trace w @ es\<rparr>"

text \<open>
  The exceptions that leave the pool. \<open>AuthError\<close> is whatever \<^verbatim>\<open>get_auth_token\<close>
  re-raises, \<open>ConnectError\<close> whatever \<^verbatim>\<open>psycopg2.connect\<close> raises, \<open>PoolExhausted\<close> the
  plain \<^verbatim>\<open>Exception\<close> of \<^verbatim>\<open>get_connection\<close> at the connection limit, and \<open>WorkError\<close> an
  exception of the caller's \<^verbatim>\<open>with\<close> body. \<open>PoolClosed\<close> is the error kind of the
  specification; no statement of the source raises it.
\<close>

datatype error = AuthError | ConnectError | PoolExhausted | PoolClosed | WorkError

section \<open>DSQLAuthenticator and the driver\<close>

text \<open>\<^verbatim>\<open>DSQLAuthenticator.get_auth_token\<close>: one call of the token service; every failure
  is logged and re-raised.\<close>

definition get_auth_token :: "env \<Rightarrow> world \<Rightarrow> (error + nat) \<times> world" where
  "get_auth_token e w =
     (let k = mint_calls w;
          w' = emit [Mint k] (w\<lparr>mint_calls := k + 1\<rparr>)
      in (if mint_ok e k then Inr k else Inl AuthError, w'))"

text \<open>\<^verbatim>\<open>psycopg2.connect(..., password=token, ...)\<close>: one handshake with the given token.\<close>

definition psycopg2_connect :: "env \<Rightarrow> nat \<Rightarrow> world \<Rightarrow> (error + nat) \<times> world" where
  "psycopg2_connect e tok w =
     (let j = open_calls w;
          w' = emit [Open tok] (w\<lparr>open_calls := j + 1\<rparr>)
      in if open_ok e j then (Inr (created w'), w'\<lparr>created := created w' + 1\<rparr>)
         else (Inl ConnectError, w'))"

section \<open>DSQLConnectionWrapper\<close>

record wrapper =
  conn_id :: nat
  created_at :: nat

text \<open>\<^verbatim>\<open>__init__\<close> stamps the wrapper with \<^verbatim>\<open>datetime.now()\<close>.\<close>

definition DSQLConnectionWrapper :: "nat \<Rightarrow> world \<Rightarrow> wrapper" where
  "DSQLConnectionWrapper c w = \<lparr>conn_id = c, created_at = now w\<rparr>"

text \<open>\<^verbatim>\<open>is_healthy\<close>: \<^verbatim>\<open>False\<close> when the driver reports the connection closed, otherwise
  the outcome of \<^verbatim>\<open>SELECT 1\<close>; every exception is caught and gives \<^verbatim>\<open>False\<close>.\<close>

definition is_healthy :: "env \<Rightarrow> wrapper \<Rightarrow> world \<Rightarrow> bool \<times> world" where
  "is_healthy e cw w =
     (if conn_id cw \<in> closed_ids w then (False, w)
      else let k = probe_calls w
           in (probe_ok e k, emit [Probe (conn_id cw)] (w\<lparr>probe_calls := k + 1\<rparr>)))"

text \<open>\<^verbatim>\<open>close\<close>: closes the connection unless it is closed already.\<close>

definition wrapper_close :: "wrapper \<Rightarrow> world \<Rightarrow> world" where
  "wrapper_close cw w =
     (if conn_id cw \<notin> closed_ids w
      then emit [Close (conn_id cw)] (w\<lparr>closed_ids := insert (conn_id cw) (closed_ids w)\<rparr>)
      else w)"

section \<open>DSQLCustomConnectionPool\<close>

text \<open>\<open>pool_q\<close> is \<^verbatim>\<open>self._pool\<close>, a FIFO \<^verbatim>\<open>queue.Queue(maxsize=maxconn)\<close>: \<^verbatim>\<open>get\<close> takes
  the head, \<^verbatim>\<open>put\<close> appends.\<close>

record pool =
  minconn :: int
  maxconn :: int
  pool_q :: "wrapper list"
  current_connections :: int

text \<open>\<^verbatim>\<open>Queue.put(block=False)\<close> raises \<^verbatim>\<open>queue.Full\<close> only for a positive
  \<^verbatim>\<open>maxsize\<close>; a queue of \<^verbatim>\<open>maxsize <= 0\<close> is unbounded.\<close>

definition queue_full :: "pool \<Rightarrow> bool" where
  "queue_full p = (0 < maxconn p \<and> maxconn p \<le> int (length (pool_q p)))"

text \<open>\<^verbatim>\<open>_create_connection\<close>: a token with five seconds to live, then the handshake
  with that token; the new connection is wrapped.\<close>

definition create_connection :: "env \<Rightarrow> world \<Rightarrow> (error + wrapper) \<times> world" where
  "create_connection e w =
     (case get_auth_token e w of
        (Inl err, w1) \<Rightarrow> (Inl err, w1)
      | (Inr tok, w1) \<Rightarrow>
          (case psycopg2_connect e tok w1 of
             (Inl err, w2) \<Rightarrow> (Inl err, w2)
           | (Inr c, w2) \<Rightarrow> (Inr (DSQLConnectionWrapper c w2), w2)))"

text \<open>\<^verbatim>\<open>_init_pool\<close>: \<^verbatim>\<open>for i in range(self.minconn)\<close>, each round in its own
  \<^verbatim>\<open>try\<close>; a failed creation and a \<^verbatim>\<open>queue.Full\<close> of \<^verbatim>\<open>put\<close> are both logged and
  the loop goes on.\<close>

fun init_loop :: "env \<Rightarrow> nat \<Rightarrow> pool \<Rightarrow> world \<Rightarrow> pool \<times> world" where
  "init_loop e 0 p w = (p, w)"
| "init_loop e (Suc n) p w =
     (case create_connection e w of
        (Inl err, w1) \<Rightarrow> init_loop e n p w1
      | (Inr cw, w1) \<Rightarrow>
          if queue_full p then init_loop e n p w1
          else init_loop e n
                 (p\<lparr>pool_q := pool_q p @ [cw],
                    current_connections := current_connections p + 1\<rparr>) w1)"

definition init_pool :: "env \<Rightarrow> pool \<Rightarrow> world \<Rightarrow> pool \<times> world" where
  "init_pool e p w = init_loop e (nat (minconn p)) p w"

text \<open>\<^verbatim>\<open>__init__\<close>: the constructor never raises, whatever \<^verbatim>\<open>_init_pool\<close> meets.\<close>

definition DSQLCustomConnectionPool :: "env \<Rightarrow> int \<Rightarrow> int \<Rightarrow> world \<Rightarrow> pool \<times> world" where
  "DSQLCustomConnectionPool e minc maxc w =
     init_pool e \<lparr>minconn = minc, maxconn = maxc, pool_q = [], current_connections = 0\<rparr> w"

text \<open>
  \<^verbatim>\<open>get_connection\<close>. The whole body runs under \<^verbatim>\<open>with self._pool_lock\<close>. Every path
  through the body of \<^verbatim>\<open>while True\<close> returns or raises, so the body runs once.
\<close>

definition get_connection_body :: "env \<Rightarrow> pool \<Rightarrow> world \<Rightarrow> (error + wrapper) \<times> pool \<times> world" where
  "get_connection_body e p w =
     (case pool_q p of
        cw # rest \<Rightarrow>
          (let p1 = p\<lparr>pool_q := rest\<rparr> in
           case is_healthy e cw w of
             (True, w1) \<Rightarrow> (Inr cw, p1, w1)
           | (False, w1) \<Rightarrow>
               (case create_connection e (wrapper_close cw w1) of
                  (r, w2) \<Rightarrow> (r, p1, w2)))
      | [] \<Rightarrow>
          if current_connections p < maxconn p then
            (case create_connection e w of
               (Inl err, w1) \<Rightarrow> (Inl err, p, w1)
             | (Inr cw, w1) \<Rightarrow>
                 (Inr cw, p\<lparr>current_connections := current_connections p + 1\<rparr>, w1))
          else (Inl PoolExhausted, p, w))"

definition get_connection :: "env \<Rightarrow> pool \<Rightarrow> world \<Rightarrow> (error + wrapper) \<times> pool \<times> world" where
  "get_connection e p w =
     (case get_connection_body e p (emit [LockAcquire] w) of
        (r, p', w') \<Rightarrow> (r, p', emit [LockRelease] w'))"

text \<open>\<^verbatim>\<open>put_connection\<close>: back into the queue; on \<^verbatim>\<open>queue.Full\<close> the connection is
  closed and the counter goes down by one under the lock.\<close>

definition put_connection :: "wrapper \<Rightarrow> pool \<Rightarrow> world \<Rightarrow> pool \<times> world" where
  "put_connection cw p w =
     (if queue_full p
      then (p\<lparr>current_connections := current_connections p - 1\<rparr>,
            emit [LockAcquire, LockRelease] (wrapper_close cw w))
      else (p\<lparr>pool_q := pool_q p @ [cw]\<rparr>, w))"

text \<open>
  \<^verbatim>\<open>get_db_connection\<close>, the context manager. \<open>body\<close> is the caller's \<^verbatim>\<open>with\<close> block; it
  gets the connection and may raise. The \<^verbatim>\<open>finally\<close> clause puts the connection back
  whenever one was obtained; the \<^verbatim>\<open>except\<close> clause only logs and re-raises.
\<close>

definition get_db_connection ::
  "env \<Rightarrow> (wrapper \<Rightarrow> pool \<Rightarrow> world \<Rightarrow> (error + 'a) \<times> pool \<times> world) \<Rightarrow> pool \<Rightarrow> world
     \<Rightarrow> (error + 'a) \<times> pool \<times> world" where
  "get_db_connection e body p w =
     (case get_connection e p w of
        (Inl err, p1, w1) \<Rightarrow> (Inl err, p1, w1)
      | (Inr cw, p1, w1) \<Rightarrow>
          (case body cw p1 w1 of
             (r, p2, w2) \<Rightarrow> (case put_connection cw p2 w2 of (p3, w3) \<Rightarrow> (r, p3, w3))))"

text \<open>\<^verbatim>\<open>close_all\<close>: takes the idle connections out one by one and closes each, then
  sets the counter to zero under the lock.\<close>

fun drain :: "wrapper list \<Rightarrow> world \<Rightarrow> world" where
  "drain [] w = w"
| "drain (cw # rest) w = drain rest (wrapper_close cw w)"

definition close_all :: "pool \<Rightarrow> world \<Rightarrow> pool \<times> world" where
  "close_all p w =
     (p\<lparr>pool_q := [], current_connections := 0\<rparr>,
      emit [LockAcquire, LockRelease] (drain (pool_q p) w))"

text \<open>\<^verbatim>\<open>get_pool_status\<close> reports the counter, the queue size and their difference.\<close>

definition get_pool_status :: "pool \<Rightarrow> int \<times> int \<times> int" where
  "get_pool_status p =
     (let available = int (length (pool_q p))
      in (current_connections p, available, current_connections p - available))"

section \<open>Callers of the pool\<close>

text \<open>
  A run of the pool is a sequence of calls and of things that happen outside it. The
  callers' side is the list of connections they hold: \<open>Acquire\<close> is a call of
  \<^verbatim>\<open>get_connection\<close> whose result the caller keeps, \<open>Release i\<close> gives the \<open>i\<close>-th held
  connection to \<^verbatim>\<open>put_connection\<close>, \<open>CloseAll\<close> is \<^verbatim>\<open>close_all\<close>. \<open>Sever c\<close> is the
  transport closing connection \<open>c\<close> under the pool's feet, \<open>Tick n\<close> lets \<open>n\<close> units of
  time pass.
\<close>

datatype pool_op = Acquire | Release nat | CloseAll | Sever nat | Tick nat

type_synonym sys = "pool \<times> world \<times> wrapper list"

fun exec_op :: "env \<Rightarrow> pool_op \<Rightarrow> sys \<Rightarrow> sys" where
  "exec_op e Acquire (p, w, held) =
     (case get_connection e p w of
        (Inl err, p', w') \<Rightarrow> (p', w', held)
      | (Inr cw, p', w') \<Rightarrow> (p', w', held @ [cw]))"
| "exec_op e (Release i) (p, w, held) =
     (if i < length held
      then (case put_connection (held ! i) p w of
              (p', w') \<Rightarrow> (p', w', take i held @ drop (Suc i) held))
      else (p, w, held))"
| "exec_op e CloseAll (p, w, held) =
     (case close_all p w of (p', w') \<Rightarrow> (p', w', held))"
| "exec_op e (Sever c) (p, w, held) = (p, w\<lparr>closed_ids := insert c (closed_ids w)\<rparr>, held)"
| "exec_op e (Tick n) (p, w, held) = (p, w\<lparr>now := now w + n\<rparr>, held)"

fun run :: "env \<Rightarrow> pool_op list \<Rightarrow> sys \<Rightarrow> sys" where
  "run e [] s = s"
| "run e (x # xs) s = run e xs (exec_op e x s)"

text \<open>The world before the program has done anything.\<close>

definition fresh_world :: world where
  "fresh_world = \<lparr>mint_calls = 0, open_calls = 0, probe_calls = 0, created = 0,
                   closed_ids = {}, now = 0, trace = []\<rparr>"

text \<open>A pool is built in the fresh world and then used.\<close>

definition start :: "env \<Rightarrow> int \<Rightarrow> int \<Rightarrow> sys" where
  "start e minc maxc =
     (case DSQLCustomConnectionPool e minc maxc fresh_world of (p, w) \<Rightarrow> (p, w, []))"

text \<open>A run in which \<^verbatim>\<open>close_all\<close> is only called while no connection is checked
  out.\<close>

fun close_all_when_idle :: "env \<Rightarrow> pool_op list \<Rightarrow> sys \<Rightarrow> bool" where
  "close_all_when_idle e [] s = True"
| "close_all_when_idle e (x # xs) s =
     ((x = CloseAll \<longrightarrow> snd (snd s) = []) \<and> close_all_when_idle e xs (exec_op e x s))"

text \<open>The invariant of the specification: the idle connections and the connections
  checked out are together at most \<^verbatim>\<open>maxconn\<close>.\<close>

definition within_limit :: "sys \<Rightarrow> bool" where
  "within_limit s =
     (case s of (p, w, held) \<Rightarrow> int (length (pool_q p)) + int (length held) \<le> maxconn p)"

text \<open>Two facts about the counter \<^verbatim>\<open>_current_connections\<close>: it covers every idle and
  every checked-out connection, and it and the queue stay within \<^verbatim>\<open>maxconn\<close>.\<close>

definition all_counted :: "sys \<Rightarrow> bool" where
  "all_counted s =
     (case s of (p, w, held) \<Rightarrow>
        int (length (pool_q p)) + int (length held) \<le> current_connections p)"

definition counter_bounded :: "sys \<Rightarrow> bool" where
  "counter_bounded s =
     (case s of (p, w, held) \<Rightarrow>
        1 \<le> maxconn p \<and> current_connections p \<le> maxconn p \<and>
        int (length (pool_q p)) \<le> maxconn p)"

text \<open>The physical connections that are live: those \<^verbatim>\<open>psycopg2.connect\<close> has opened and
  nobody has closed.\<close>

definition live :: "world \<Rightarrow> nat list" where
  "live w = filter (\<lambda>c. c \<notin> closed_ids w) [0..<created w]"

text \<open>Every live connection is in the idle queue or in a caller's hands.\<close>

definition all_tracked :: "sys \<Rightarrow> bool" where
  "all_tracked s =
     (case s of (p, w, held) \<Rightarrow>
        set (live w) \<subseteq> conn_id ` set (pool_q p) \<union> conn_id ` set held)"

section \<open>Reading the trace\<close>

text \<open>The token of every handshake, in the order of the handshakes.\<close>

fun open_tokens :: "event list \<Rightarrow> nat list" where
  "open_tokens [] = []"
| "open_tokens (Open t # es) = t # open_tokens es"
| "open_tokens (ev # es) = open_tokens es"

fun io_event :: "event \<Rightarrow> bool" where
  "io_event (Mint k) = True"
| "io_event (Open t) = True"
| "io_event (Probe c) = True"
| "io_event ev = False"

fun lock_event :: "event \<Rightarrow> bool" where
  "lock_event LockAcquire = True"
| "lock_event LockRelease = True"
| "lock_event ev = False"

text \<open>No token mint, handshake or probe happens while the lock is held; the first
  argument says whether the lock is held at the start of the trace.\<close>

fun io_outside_lock :: "bool \<Rightarrow> event list \<Rightarrow> bool" where
  "io_outside_lock held [] = True"
| "io_outside_lock held (LockAcquire # es) = io_outside_lock True es"
| "io_outside_lock held (LockRelease # es) = io_outside_lock False es"
| "io_outside_lock held (ev # es) = ((io_event ev \<longrightarrow> \<not> held) \<and> io_outside_lock held es)"

text \<open>Every handshake so far had a token of its own, and every token used came from a
  call of the token service that has happened.\<close>

definition tokens_fresh :: "world \<Rightarrow> bool" where
  "tokens_fresh w =
     (distinct (open_tokens (trace w)) \<and> (\<forall>t \<in> set (open_tokens (trace w)). t < mint_calls w))"

section \<open>The health check of the specification\<close>


section \<open>DSQLPoolManager\<close>

text \<open>
  The pool of \<^verbatim>\<open>psycopg2_connectionpooling.py\<close> hands the work to the driver's
  \<^verbatim>\<open>ThreadedConnectionPool(minconn, maxconn, **kwargs)\<close>, whose constructor opens
  \<^verbatim>\<open>minconn\<close> connections one after the other, each with the keyword arguments it was
  given, and raises what the first failing handshake raises.
\<close>

fun pool_connect :: "env \<Rightarrow> nat \<Rightarrow> nat \<Rightarrow> world \<Rightarrow> (error + nat list) \<times> world" where
  "pool_connect e tok 0 w = (Inr [], w)"
| "pool_connect e tok (Suc n) w =
     (case psycopg2_connect e tok w of
        (Inl err, w1) \<Rightarrow> (Inl err, w1)
      | (Inr c, w1) \<Rightarrow>
          (case pool_connect e tok n w1 of
             (Inl err, w2) \<Rightarrow> (Inl err, w2)
           | (Inr cs, w2) \<Rightarrow> (Inr (c # cs), w2)))"

definition ThreadedConnectionPool :: "env \<Rightarrow> int \<Rightarrow> nat \<Rightarrow> world \<Rightarrow> (error + nat list) \<times> world" where
  "ThreadedConnectionPool e minc tok w = pool_connect e tok (nat minc) w"

record manager =
  pm_minconn :: int
  pm_maxconn :: int
  pm_password :: nat
  pm_pool :: "nat list"

text \<open>\<^verbatim>\<open>DSQLPoolManager._init_pool\<close>: one token with 120 seconds to live, minted
  outside the \<^verbatim>\<open>try\<close>; then the driver's pool is built with it. The \<^verbatim>\<open>except\<close> clause
  re-raises. \<^verbatim>\<open>self.pool\<close> is \<^verbatim>\<open>None\<close> when the constructor calls it, so nothing is
  closed first.\<close>

definition manager_init_pool :: "env \<Rightarrow> int \<Rightarrow> int \<Rightarrow> world \<Rightarrow> (error + manager) \<times> world" where
  "manager_init_pool e minc maxc w =
     (case get_auth_token e w of
        (Inl err, w1) \<Rightarrow> (Inl err, w1)
      | (Inr tok, w1) \<Rightarrow>
          (case ThreadedConnectionPool e minc tok w1 of
             (Inl err, w2) \<Rightarrow> (Inl err, w2)
           | (Inr cs, w2) \<Rightarrow>
               (Inr \<lparr>pm_minconn = minc, pm_maxconn = maxc, pm_password = tok, pm_pool = cs\<rparr>,
                w2)))"

text \<open>\<^verbatim>\<open>DSQLPoolManager.__init__\<close> stores its arguments and calls \<^verbatim>\<open>_init_pool\<close>.\<close>

definition DSQLPoolManager :: "env \<Rightarrow> int \<Rightarrow> int \<Rightarrow> world \<Rightarrow> (error + manager) \<times> world" where
  "DSQLPoolManager e minc maxc w = manager_init_pool e minc maxc w"

text \<open>\<^verbatim>\<open>DSQLPoolManager._create_single_connection\<close>: a token of its own, then the
  handshake.\<close>

definition create_single_connection :: "env \<Rightarrow> world \<Rightarrow> (error + nat) \<times> world" where
  "create_single_connection e w =
     (case get_auth_token e w of
        (Inl err, w1) \<Rightarrow> (Inl err, w1)
      | (Inr tok, w1) \<Rightarrow> psycopg2_connect e tok w1)"

section \<open>Oracles and states used as examples\<close>

definition env_ok :: env where
  "env_ok = \<lparr>mint_ok = (\<lambda>k. True), open_ok = (\<lambda>k. True), probe_ok = (\<lambda>k. True)\<rparr>"

definition env_no_token :: env where
  "env_no_token = \<lparr>mint_ok = (\<lambda>k. False), open_ok = (\<lambda>k. True), probe_ok = (\<lambda>k. True)\<rparr>"

definition env_no_connect :: env where
  "env_no_connect = \<lparr>mint_ok = (\<lambda>k. True), open_ok = (\<lambda>k. False), probe_ok = (\<lambda>k. True)\<rparr>"

definition env_dead_probe :: env where
  "env_dead_probe = \<lparr>mint_ok = (\<lambda>k. True), open_ok = (\<lambda>k. True), probe_ok = (\<lambda>k. False)\<rparr>"

definition pool0 :: pool where
  "pool0 = \<lparr>minconn = 0, maxconn = 1, pool_q = [], current_connections = 0\<rparr>"

text \<open>A pool of at most one connection whose only connection, number 0, is idle, and
  the world in which that connection has been made.\<close>

definition conn0 :: wrapper where
  "conn0 = \<lparr>conn_id = 0, created_at = 0\<rparr>"

definition pool_idle :: pool where
  "pool_idle = \<lparr>minconn = 0, maxconn = 1, pool_q = [conn0], current_connections = 1\<rparr>"

definition world_one :: world where
  "world_one = \<lparr>mint_calls = 1, open_calls = 1, probe_calls = 0, created = 1,
                 closed_ids = {}, now = 0, trace = [Mint 0, Open 0]\<rparr>"

text \<open>The same world after the transport has closed connection 0, and the same world
  a hundred units of time later.\<close>

definition world_severed :: world where
  "world_severed = world_one\<lparr>closed_ids := {0}\<rparr>"

definition world_later :: world where
  "world_later = world_one\<lparr>now := 100\<rparr>"

text \<open>A pool of at most one connection that has handed out its connection and has then
  been told to \<^verbatim>\<open>close_all\<close>.\<close>

definition closed_while_out :: sys where
  "closed_while_out = run env_ok [Acquire, CloseAll] (start env_ok 0 1)"

text \<open>A \<^verbatim>\<open>with\<close> body that raises at once.\<close>

definition failing_work :: "wrapper \<Rightarrow> pool \<Rightarrow> world \<Rightarrow> (error + unit) \<times> pool \<times> world" where
  "failing_work cw p w = (Inl WorkError, p, w)"

section \<open>What one call does to the world\<close>

lemmas world_defs = emit_def get_auth_token_def psycopg2_connect_def DSQLConnectionWrapper_def
  is_healthy_def wrapper_close_def create_connection_def

lemmas example_defs = env_ok_def env_no_token_def env_no_connect_def env_dead_probe_def
  fresh_world_def pool0_def conn0_def pool_idle_def world_one_def world_severed_def
  world_later_def failing_work_def

lemma emit_fields [simp]:
  "closed_ids (emit es w) = closed_ids w"
  "mint_calls (emit es w) = mint_calls w"
  "open_calls (emit es w) = open_calls w"
  "created (emit es w) = created w"
  "probe_calls (emit es w) = probe_calls w"
  "now (emit es w) = now w"
  "trace (emit es w) = trace w @ es"
  by (simp_all add: emit_def)

lemma is_healthy_verdict:
  "fst (is_healthy e cw w) = (conn_id cw \<notin> closed_ids w \<and> probe_ok e (probe_calls w))"
  by (simp add: is_healthy_def Let_def)


lemma is_healthy_fields [simp]:
  "closed_ids (snd (is_healthy e cw w)) = closed_ids w"
  "mint_calls (snd (is_healthy e cw w)) = mint_calls w"
  "open_calls (snd (is_healthy e cw w)) = open_calls w"
  "created (snd (is_healthy e cw w)) = created w"
  "now (snd (is_healthy e cw w)) = now w"
  by (simp_all add: is_healthy_def emit_def Let_def)

lemma wrapper_close_fields [simp]:
  "closed_ids (wrapper_close cw w) = insert (conn_id cw) (closed_ids w)"
  "mint_calls (wrapper_close cw w) = mint_calls w"
  "open_calls (wrapper_close cw w) = open_calls w"
  "created (wrapper_close cw w) = created w"
  "probe_calls (wrapper_close cw w) = probe_calls w"
  "now (wrapper_close cw w) = now w"
  by (auto simp: wrapper_close_def emit_def)

lemma create_connection_result:
  "fst (create_connection e w) =
     (if \<not> mint_ok e (mint_calls w) then Inl AuthError
      else if \<not> open_ok e (open_calls w) then Inl ConnectError
      else Inr \<lparr>conn_id = created w, created_at = now w\<rparr>)"
  by (simp add: world_defs Let_def)

lemma create_connection_fields [simp]:
  "mint_calls (snd (create_connection e w)) = mint_calls w + 1"
  "open_calls (snd (create_connection e w)) =
     (if mint_ok e (mint_calls w) then open_calls w + 1 else open_calls w)"
  "created (snd (create_connection e w)) =
     (if mint_ok e (mint_calls w) \<and> open_ok e (open_calls w) then created w + 1 else created w)"
  "closed_ids (snd (create_connection e w)) = closed_ids w"
  "probe_calls (snd (create_connection e w)) = probe_calls w"
  "now (snd (create_connection e w)) = now w"
  by (simp_all add: world_defs Let_def)

lemma get_connection_body_empty:
  assumes q: "pool_q p = []"
  shows "get_connection_body e p w =
     (if current_connections p < maxconn p then
        (fst (create_connection e w),
         (if mint_ok e (mint_calls w) \<and> open_ok e (open_calls w)
          then p\<lparr>current_connections := current_connections p + 1\<rparr> else p),
         snd (create_connection e w))
      else (Inl PoolExhausted, p, w))"
proof -
  obtain r w1 where c: "create_connection e w = (r, w1)"
    by (cases "create_connection e w")
  have r: "r = (if \<not> mint_ok e (mint_calls w) then Inl AuthError
                else if \<not> open_ok e (open_calls w) then Inl ConnectError
                else Inr \<lparr>conn_id = created w, created_at = now w\<rparr>)"
    using create_connection_result [of e w] c by simp
  show ?thesis
    using q c by (simp add: get_connection_body_def r)
qed

lemma get_connection_body_idle:
  "pool_q p = cw # rest \<Longrightarrow> get_connection_body e p w =
     (if fst (is_healthy e cw w) then (Inr cw, p\<lparr>pool_q := rest\<rparr>, snd (is_healthy e cw w))
      else (fst (create_connection e (wrapper_close cw (snd (is_healthy e cw w)))),
            p\<lparr>pool_q := rest\<rparr>,
            snd (create_connection e (wrapper_close cw (snd (is_healthy e cw w))))))"
  by (auto simp: get_connection_body_def Let_def split: prod.splits bool.splits)

lemma get_connection_unfold:
  "get_connection e p w =
     (fst (get_connection_body e p (emit [LockAcquire] w)),
      fst (snd (get_connection_body e p (emit [LockAcquire] w))),
      emit [LockRelease] (snd (snd (get_connection_body e p (emit [LockAcquire] w)))))"
  by (simp add: get_connection_def split: prod.splits)

section \<open>The connection limit\<close>

text \<open>
  The limit check of \<^verbatim>\<open>get_connection\<close> reads the counter. With an empty idle queue and
  \<^verbatim>\<open>_current_connections\<close> at \<^verbatim>\<open>maxconn\<close> or above, the call raises the pool-limit
  exception at once: no token is minted, no connection is opened, and the pool (queue and
  counter) is what it was. The world differs only by the lock having been taken and
  given back.
\<close>

lemma exhausted_fails_fast:
  assumes "pool_q p = []" and "maxconn p \<le> current_connections p"
  shows "get_connection e p w = (Inl PoolExhausted, p, emit [LockAcquire, LockRelease] w)"
  using assms by (simp add: get_connection_unfold get_connection_body_empty emit_def)

lemma exhausted_fails_fast_at_limit:
  "pool_q (pool0\<lparr>current_connections := 1\<rparr>) = [] \<and>
   maxconn (pool0\<lparr>current_connections := 1\<rparr>)
     \<le> current_connections (pool0\<lparr>current_connections := 1\<rparr>) \<and>
   get_connection env_ok (pool0\<lparr>current_connections := 1\<rparr>) world_one
     = (Inl PoolExhausted, pool0\<lparr>current_connections := 1\<rparr>,
        emit [LockAcquire, LockRelease] world_one)"
  using exhausted_fails_fast [of "pool0\<lparr>current_connections := 1\<rparr>" env_ok world_one]
  by (simp add: pool0_def)

lemma closed_while_out_state:
  "closed_while_out =
     (pool0,
      \<lparr>mint_calls = 1, open_calls = 1, probe_calls = 0, created = 1, closed_ids = {},
        now = 0,
        trace = [LockAcquire, Mint 0, Open 0, LockRelease, LockAcquire, LockRelease]\<rparr>,
      [conn0])"
  by (simp add: closed_while_out_def start_def DSQLCustomConnectionPool_def init_pool_def
        get_connection_def get_connection_body_def close_all_def world_defs Let_def
        example_defs)

text \<open>
  C6. The claim is about the live connections, the check about the counter, and
  \<^verbatim>\<open>close_all\<close> parts the two. A pool with \<^verbatim>\<open>maxconn=1\<close> has handed out connection 0 and
  \<^verbatim>\<open>close_all\<close> has been called: the idle queue is empty, one physical connection is
  live, which is \<^verbatim>\<open>maxconn\<close>, and the counter is 0. The next \<^verbatim>\<open>get_connection\<close> does not
  raise: it opens connection 1 and returns it, and two physical connections are live.
\<close>

theorem limit_check_misses_checked_out:
  "pool_q (fst closed_while_out) = [] \<and>
   maxconn (fst closed_while_out) = 1 \<and>
   length (live (fst (snd closed_while_out))) = 1 \<and>
   snd (snd closed_while_out) = [conn0] \<and>
   current_connections (fst closed_while_out) = 0 \<and>
   fst (get_connection env_ok (fst closed_while_out) (fst (snd closed_while_out)))
     = Inr \<lparr>conn_id = 1, created_at = 0\<rparr> \<and>
   length (live (snd (snd (get_connection env_ok (fst closed_while_out)
                              (fst (snd closed_while_out)))))) = 2"
  unfolding closed_while_out_state
  by (simp add: get_connection_unfold get_connection_body_empty create_connection_result
        live_def pool0_def env_ok_def)

section \<open>The counter when get_connection raises\<close>

text \<open>
  C10. Whenever \<^verbatim>\<open>get_connection\<close> raises (at the limit, or because the token or the
  handshake failed, on the empty-queue branch or on the replacement branch), the counter
  \<^verbatim>\<open>_current_connections\<close> has the value it had on entry. On the replacement branch the
  unhealthy connection has by then left the queue and is closed, so it stays counted.
\<close>

theorem raise_keeps_counter:
  assumes "fst (get_connection e p w) = Inl err"
  shows "current_connections (fst (snd (get_connection e p w))) = current_connections p \<and>
         (\<forall>cw rest. pool_q p = cw # rest \<longrightarrow>
            pool_q (fst (snd (get_connection e p w))) = rest \<and>
            conn_id cw \<in> closed_ids (snd (snd (get_connection e p w))))"
proof (cases "pool_q p")
  case Nil
  with assms show ?thesis
    by (auto simp: get_connection_unfold get_connection_body_empty create_connection_result
             split: if_splits)
next
  case (Cons cw rest)
  with assms show ?thesis
    by (auto simp: get_connection_unfold get_connection_body_idle split: if_splits)
qed

theorem raise_keeps_counter_witness:
  "fst (get_connection env_no_token pool_idle world_severed) = Inl AuthError \<and>
   current_connections (fst (snd (get_connection env_no_token pool_idle world_severed))) = 1 \<and>
   pool_q (fst (snd (get_connection env_no_token pool_idle world_severed))) = [] \<and>
   0 \<in> closed_ids (snd (snd (get_connection env_no_token pool_idle world_severed)))"
proof -
  have h: "fst (get_connection env_no_token pool_idle world_severed) = Inl AuthError"
    by (simp add: get_connection_unfold get_connection_body_idle is_healthy_verdict
          create_connection_result example_defs)
  show ?thesis
    using h raise_keeps_counter [OF h] by (simp add: pool_idle_def conn0_def)
qed

section \<open>An unhealthy idle connection\<close>

lemma is_healthy_emit [simp]:
  "fst (is_healthy e cw (emit es w)) = fst (is_healthy e cw w)"
  by (simp add: is_healthy_verdict)




section \<open>The age of a connection\<close>




section \<open>After close_all\<close>

lemma drain_fields [simp]:
  "mint_calls (drain cws w) = mint_calls w"
  "open_calls (drain cws w) = open_calls w"
  "created (drain cws w) = created w"
  "probe_calls (drain cws w) = probe_calls w"
  "now (drain cws w) = now w"
  by (induction cws arbitrary: w) simp_all

lemma drain_closed_ids [simp]:
  "closed_ids (drain cws w) = closed_ids w \<union> conn_id ` set cws"
  by (induction cws arbitrary: w) auto

lemma get_connection_not_PoolClosed: "fst (get_connection e p w) \<noteq> Inl PoolClosed"
proof (cases "pool_q p")
  case Nil
  then show ?thesis
    by (simp add: get_connection_unfold get_connection_body_empty create_connection_result)
next
  case (Cons cw rest)
  then show ?thesis
    by (simp add: get_connection_unfold get_connection_body_idle create_connection_result)
qed

text \<open>
  C2, as stated, fails. A pool of at most one connection is built, \<^verbatim>\<open>close_all\<close> is
  called, and the next \<^verbatim>\<open>get_connection\<close> does not raise: it opens a new physical
  connection and returns it.
\<close>

theorem acquire_after_close_all_creates:
  "fst (get_connection env_ok (fst (close_all pool_idle world_one))
          (snd (close_all pool_idle world_one)))
     = Inr \<lparr>conn_id = 1, created_at = 0\<rparr> \<and>
   created (snd (snd (get_connection env_ok (fst (close_all pool_idle world_one))
          (snd (close_all pool_idle world_one)))))
     = created (snd (close_all pool_idle world_one)) + 1"
  by (simp add: close_all_def get_connection_unfold get_connection_body_empty
        create_connection_result example_defs)

text \<open>
  C2, amended. \<^verbatim>\<open>close_all\<close> closes every idle connection, empties the queue and sets
  the counter to zero; it sets no closed flag, and the pool has none. A later
  \<^verbatim>\<open>get_connection\<close> never fails with \<open>PoolClosed\<close>: on a pool with \<^verbatim>\<open>maxconn >= 1\<close> it
  mints a token and, when the token and the handshake succeed, returns a new connection,
  the number of connections created going up by one and the counter to one.
\<close>

theorem close_all_then_acquire:
  "pool_q (fst (close_all p w)) = [] \<and>
   current_connections (fst (close_all p w)) = 0 \<and>
   maxconn (fst (close_all p w)) = maxconn p \<and>
   conn_id ` set (pool_q p) \<subseteq> closed_ids (snd (close_all p w)) \<and>
   created (snd (close_all p w)) = created w \<and>
   fst (get_connection e (fst (close_all p w)) (snd (close_all p w))) \<noteq> Inl PoolClosed \<and>
   (1 \<le> maxconn p \<longrightarrow>
      mint_calls (snd (snd (get_connection e (fst (close_all p w)) (snd (close_all p w)))))
        = mint_calls w + 1 \<and>
      (mint_ok e (mint_calls w) \<and> open_ok e (open_calls w) \<longrightarrow>
         fst (get_connection e (fst (close_all p w)) (snd (close_all p w)))
           = Inr \<lparr>conn_id = created w, created_at = now w\<rparr> \<and>
         created (snd (snd (get_connection e (fst (close_all p w)) (snd (close_all p w)))))
           = created w + 1 \<and>
         current_connections
           (fst (snd (get_connection e (fst (close_all p w)) (snd (close_all p w))))) = 1))"
proof -
  have c: "close_all p w =
      (p\<lparr>pool_q := [], current_connections := 0\<rparr>,
       emit [LockAcquire, LockRelease] (drain (pool_q p) w))"
    by (simp add: close_all_def)
  show ?thesis
    unfolding c
    by (simp add: get_connection_not_PoolClosed)
       (simp add: get_connection_unfold get_connection_body_empty create_connection_result)
qed

theorem close_all_then_acquire_witness:
  "1 \<le> maxconn pool_idle \<and> mint_ok env_ok (mint_calls world_one) \<and>
   open_ok env_ok (open_calls world_one) \<and>
   pool_q (fst (close_all pool_idle world_one)) = [] \<and>
   fst (get_connection env_ok (fst (close_all pool_idle world_one))
          (snd (close_all pool_idle world_one)))
     = Inr \<lparr>conn_id = 1, created_at = 0\<rparr> \<and>
   current_connections
     (fst (snd (get_connection env_ok (fst (close_all pool_idle world_one))
        (snd (close_all pool_idle world_one))))) = 1"
proof -
  have h: "1 \<le> maxconn pool_idle" "mint_ok env_ok (mint_calls world_one)"
    "open_ok env_ok (open_calls world_one)"
    by (simp_all add: example_defs)
  have v: "created world_one = 1" "now world_one = 0"
    by (simp_all add: example_defs)
  show ?thesis
    using h v close_all_then_acquire [of pool_idle world_one env_ok] by simp
qed

section \<open>The context manager\<close>

text \<open>
  C4, as stated, fails. The \<^verbatim>\<open>with\<close> body raises; the \<^verbatim>\<open>finally\<close> clause gives the
  connection to \<^verbatim>\<open>put_connection\<close>, which knows nothing of the failure: the connection
  is back in the idle queue and it is not closed.
\<close>

theorem errored_connection_pooled:
  "fst (get_db_connection env_ok failing_work pool0 fresh_world) = Inl WorkError \<and>
   pool_q (fst (snd (get_db_connection env_ok failing_work pool0 fresh_world)))
     = [\<lparr>conn_id = 0, created_at = 0\<rparr>] \<and>
   0 \<notin> closed_ids (snd (snd (get_db_connection env_ok failing_work pool0 fresh_world)))"
  by (simp add: get_db_connection_def get_connection_unfold get_connection_body_empty
        create_connection_result put_connection_def queue_full_def example_defs)

text \<open>
  C4, amended. Whenever the context manager obtained a connection, it calls
  \<^verbatim>\<open>put_connection\<close> on it once, after the body, and returns what the body returned or
  raised; what \<^verbatim>\<open>put_connection\<close> does is the same whether the body raised or not. If the
  queue is not full the connection is appended to the idle queue and left open; if the
  queue is full the connection is closed and the counter goes down by one.
\<close>

theorem release_ignores_body_error:
  assumes g: "get_connection e p w = (Inr cw, p1, w1)"
    and b: "body cw p1 w1 = (r, p2, w2)"
  shows "get_db_connection e body p w
           = (r, fst (put_connection cw p2 w2), snd (put_connection cw p2 w2)) \<and>
         (if queue_full p2
          then pool_q (fst (put_connection cw p2 w2)) = pool_q p2 \<and>
               conn_id cw \<in> closed_ids (snd (put_connection cw p2 w2)) \<and>
               current_connections (fst (put_connection cw p2 w2)) = current_connections p2 - 1
          else pool_q (fst (put_connection cw p2 w2)) = pool_q p2 @ [cw] \<and>
               closed_ids (snd (put_connection cw p2 w2)) = closed_ids w2 \<and>
               current_connections (fst (put_connection cw p2 w2)) = current_connections p2)"
  using g b
  by (simp add: get_db_connection_def put_connection_def split: prod.splits)

theorem release_ignores_body_error_witness:
  "get_connection env_ok pool0 fresh_world
     = (Inr conn0, pool0\<lparr>current_connections := 1\<rparr>,
        emit [LockAcquire, Mint 0, Open 0, LockRelease] (world_one\<lparr>trace := []\<rparr>)) \<and>
   get_db_connection env_ok failing_work pool0 fresh_world
     = (Inl WorkError, pool_idle,
        emit [LockAcquire, Mint 0, Open 0, LockRelease] (world_one\<lparr>trace := []\<rparr>))"
proof -
  have g: "get_connection env_ok pool0 fresh_world
     = (Inr conn0, pool0\<lparr>current_connections := 1\<rparr>,
        emit [LockAcquire, Mint 0, Open 0, LockRelease] (world_one\<lparr>trace := []\<rparr>))"
    by (simp add: get_connection_unfold get_connection_body_empty create_connection_result
          world_defs example_defs)
  have b: "failing_work conn0 (pool0\<lparr>current_connections := 1\<rparr>)
             (emit [LockAcquire, Mint 0, Open 0, LockRelease] (world_one\<lparr>trace := []\<rparr>))
           = (Inl WorkError, pool0\<lparr>current_connections := 1\<rparr>,
              emit [LockAcquire, Mint 0, Open 0, LockRelease] (world_one\<lparr>trace := []\<rparr>))"
    by (simp add: failing_work_def)
  have f: "\<not> queue_full (pool0\<lparr>current_connections := 1\<rparr>)"
    by (simp add: queue_full_def pool0_def)
  show ?thesis
    using g release_ignores_body_error [where body = failing_work, OF g b] f
    by (simp add: put_connection_def pool0_def pool_idle_def)
qed

section \<open>The lock and the network\<close>

lemma create_connection_trace:
  "trace (snd (create_connection e w)) =
     trace w @ (if mint_ok e (mint_calls w)
                then [Mint (mint_calls w), Open (mint_calls w)] else [Mint (mint_calls w)])"
  by (simp add: world_defs Let_def)

lemma is_healthy_trace:
  "trace (snd (is_healthy e cw w)) =
     trace w @ (if conn_id cw \<in> closed_ids w then [] else [Probe (conn_id cw)])"
  by (simp add: is_healthy_def emit_def Let_def)

lemma wrapper_close_trace:
  "trace (wrapper_close cw w) =
     trace w @ (if conn_id cw \<in> closed_ids w then [] else [Close (conn_id cw)])"
  by (simp add: wrapper_close_def emit_def)

lemma get_connection_body_trace:
  "\<exists>mid. trace (snd (snd (get_connection_body e p w))) = trace w @ mid \<and>
         (\<forall>ev \<in> set mid. \<not> lock_event ev)"
proof (cases "pool_q p")
  case Nil
  show ?thesis
  proof (cases "current_connections p < maxconn p")
    case True
    with Nil show ?thesis
      by (simp add: get_connection_body_empty create_connection_trace)
  next
    case False
    with Nil show ?thesis
      by (simp add: get_connection_body_empty)
  qed
next
  case (Cons cw rest)
  let ?pr = "if conn_id cw \<in> closed_ids w then [] else [Probe (conn_id cw)]"
  let ?w1 = "snd (is_healthy e cw w)"
  let ?cl = "if conn_id cw \<in> closed_ids ?w1 then [] else [Close (conn_id cw)]"
  let ?w2 = "wrapper_close cw ?w1"
  let ?cr = "if mint_ok e (mint_calls ?w2)
             then [Mint (mint_calls ?w2), Open (mint_calls ?w2)] else [Mint (mint_calls ?w2)]"
  show ?thesis
  proof (cases "fst (is_healthy e cw w)")
    case True
    with Cons have "trace (snd (snd (get_connection_body e p w))) = trace w @ ?pr"
      by (simp add: get_connection_body_idle is_healthy_trace)
    moreover have "\<forall>ev \<in> set ?pr. \<not> lock_event ev" by simp
    ultimately show ?thesis by blast
  next
    case False
    with Cons have "trace (snd (snd (get_connection_body e p w))) = trace w @ (?pr @ ?cl @ ?cr)"
      by (simp add: get_connection_body_idle is_healthy_trace wrapper_close_trace
            create_connection_trace del: is_healthy_fields wrapper_close_fields)
    moreover have "\<forall>ev \<in> set (?pr @ ?cl @ ?cr). \<not> lock_event ev" by simp
    ultimately show ?thesis by blast
  qed
qed

text \<open>
  C9, as stated, fails. A \<^verbatim>\<open>get_connection\<close> on an empty pool below its limit mints a
  token and opens a connection, and both happen while the lock is held.
\<close>

theorem io_under_lock:
  "trace (snd (snd (get_connection env_ok pool0 fresh_world)))
     = [LockAcquire, Mint 0, Open 0, LockRelease] \<and>
   \<not> io_outside_lock False (trace (snd (snd (get_connection env_ok pool0 fresh_world))))"
  by (simp add: get_connection_unfold get_connection_body_empty create_connection_trace
        example_defs)

text \<open>
  C9, amended. \<^verbatim>\<open>get_connection\<close> holds the pool's lock for the whole call. It takes the
  lock once on entry and gives it back once on exit, whether it returns or raises, and
  everything else it does (the probe of the health check, the closing of an unhealthy
  connection, the token mint and the handshake) happens in between, inside the critical
  section.
\<close>

theorem lock_held_throughout:
  "\<exists>mid. trace (snd (snd (get_connection e p w)))
           = trace w @ LockAcquire # mid @ [LockRelease] \<and>
         (\<forall>ev \<in> set mid. \<not> lock_event ev)"
proof -
  obtain mid where
    m: "trace (snd (snd (get_connection_body e p (emit [LockAcquire] w))))
          = trace (emit [LockAcquire] w) @ mid"
    and l: "\<forall>ev \<in> set mid. \<not> lock_event ev"
    using get_connection_body_trace by blast
  have "trace (snd (snd (get_connection e p w))) = trace w @ LockAcquire # mid @ [LockRelease]"
    by (simp add: get_connection_unfold m)
  with l show ?thesis by blast
qed

theorem lock_held_throughout_witness:
  "\<exists>mid. [LockAcquire, Mint 0, Open 0, LockRelease] = LockAcquire # mid @ [LockRelease] \<and>
         LockAcquire \<notin> set mid \<and> LockRelease \<notin> set mid"
proof -
  have t: "trace (snd (snd (get_connection env_ok pool0 fresh_world)))
             = [LockAcquire, Mint 0, Open 0, LockRelease]"
    by (simp add: get_connection_unfold get_connection_body_empty create_connection_trace
          example_defs)
  have f: "trace fresh_world = []" by (simp add: fresh_world_def)
  obtain mid where
    m: "[LockAcquire, Mint 0, Open 0, LockRelease] = LockAcquire # mid @ [LockRelease]"
    and l: "\<forall>ev \<in> set mid. \<not> lock_event ev"
    using lock_held_throughout [of env_ok pool0 fresh_world] unfolding t f by auto
  from l have "LockAcquire \<notin> set mid" "LockRelease \<notin> set mid" by auto
  with m show ?thesis by blast
qed

section \<open>Pre-warming\<close>

lemma init_loop_Suc:
  "init_loop e (Suc n) p w =
     (if mint_ok e (mint_calls w) \<and> open_ok e (open_calls w) \<and> \<not> queue_full p
      then init_loop e n
             (p\<lparr>pool_q := pool_q p @ [\<lparr>conn_id = created w, created_at = now w\<rparr>],
                current_connections := current_connections p + 1\<rparr>)
             (snd (create_connection e w))
      else init_loop e n p (snd (create_connection e w)))"
proof -
  obtain r w1 where c: "create_connection e w = (r, w1)"
    by (cases "create_connection e w")
  have r: "r = (if \<not> mint_ok e (mint_calls w) then Inl AuthError
                else if \<not> open_ok e (open_calls w) then Inl ConnectError
                else Inr \<lparr>conn_id = created w, created_at = now w\<rparr>)"
    using create_connection_result [of e w] c by simp
  show ?thesis
    using c by (simp add: r)
qed

lemma init_loop_config [simp]:
  "maxconn (fst (init_loop e n p w)) = maxconn p"
  "minconn (fst (init_loop e n p w)) = minconn p"
  by (induction n arbitrary: p w) (simp_all add: init_loop_Suc del: init_loop.simps(2))

lemma init_loop_mint_calls [simp]:
  "mint_calls (snd (init_loop e n p w)) = mint_calls w + n"
  by (induction n arbitrary: p w) (simp_all add: init_loop_Suc del: init_loop.simps(2))

lemma init_loop_created:
  "created w \<le> created (snd (init_loop e n p w)) \<and>
   created (snd (init_loop e n p w)) \<le> created w + n"
proof (induction n arbitrary: p w)
  case 0
  show ?case by simp
next
  case (Suc n)
  show ?case
    using Suc.IH [where p = "p\<lparr>pool_q := pool_q p @ [\<lparr>conn_id = created w, created_at = now w\<rparr>],
                        current_connections := current_connections p + 1\<rparr>"
                     and w = "snd (create_connection e w)"]
          Suc.IH [where p = p and w = "snd (create_connection e w)"]
    by (auto simp: init_loop_Suc simp del: init_loop.simps(2) split: if_splits)
qed

lemma init_loop_idle:
  "length (pool_q p) \<le> length (pool_q (fst (init_loop e n p w))) \<and>
   length (pool_q (fst (init_loop e n p w))) + created w
     \<le> length (pool_q p) + created (snd (init_loop e n p w))"
proof (induction n arbitrary: p w)
  case 0
  show ?case by simp
next
  case (Suc n)
  show ?case
    using Suc.IH [where p = "p\<lparr>pool_q := pool_q p @ [\<lparr>conn_id = created w, created_at = now w\<rparr>],
                        current_connections := current_connections p + 1\<rparr>"
                     and w = "snd (create_connection e w)"]
          Suc.IH [where p = p and w = "snd (create_connection e w)"]
    by (auto simp: init_loop_Suc simp del: init_loop.simps(2) split: if_splits)
qed

lemma init_loop_idle_room:
  "maxconn p \<le> 0 \<or> int (length (pool_q p)) + int n \<le> maxconn p \<Longrightarrow>
   length (pool_q (fst (init_loop e n p w))) + created w
     = length (pool_q p) + created (snd (init_loop e n p w))"
proof (induction n arbitrary: p w)
  case 0
  show ?case by simp
next
  case (Suc n)
  have nf: "\<not> queue_full p"
    using Suc.prems by (auto simp: queue_full_def)
  show ?case
    using Suc.prems nf
          Suc.IH [where p = "p\<lparr>pool_q := pool_q p @ [\<lparr>conn_id = created w, created_at = now w\<rparr>],
                        current_connections := current_connections p + 1\<rparr>"
                     and w = "snd (create_connection e w)"]
          Suc.IH [where p = p and w = "snd (create_connection e w)"]
    by (auto simp: init_loop_Suc simp del: init_loop.simps(2) split: if_splits)
qed

lemma init_loop_counter:
  "current_connections (fst (init_loop e n p w)) - int (length (pool_q (fst (init_loop e n p w))))
     = current_connections p - int (length (pool_q p))"
  by (induction n arbitrary: p w) (simp_all add: init_loop_Suc del: init_loop.simps(2))

lemma init_loop_bounded:
  "1 \<le> maxconn p \<Longrightarrow> int (length (pool_q p)) \<le> maxconn p \<Longrightarrow>
   int (length (pool_q (fst (init_loop e n p w)))) \<le> maxconn p"
proof (induction n arbitrary: p w)
  case 0
  then show ?case by simp
next
  case (Suc n)
  show ?case
    using Suc.prems
          Suc.IH [where p = "p\<lparr>pool_q := pool_q p @ [\<lparr>conn_id = created w, created_at = now w\<rparr>],
                        current_connections := current_connections p + 1\<rparr>"
                     and w = "snd (create_connection e w)"]
          Suc.IH [where p = p and w = "snd (create_connection e w)"]
    by (auto simp: init_loop_Suc queue_full_def simp del: init_loop.simps(2) split: if_splits)
qed

lemma psycopg2_connect_result:
  "fst (psycopg2_connect e tok w) =
     (if open_ok e (open_calls w) then Inr (created w) else Inl ConnectError)"
  by (simp add: psycopg2_connect_def emit_def Let_def)

lemma psycopg2_connect_fields [simp]:
  "open_calls (snd (psycopg2_connect e tok w)) = open_calls w + 1"
  "created (snd (psycopg2_connect e tok w)) =
     (if open_ok e (open_calls w) then created w + 1 else created w)"
  "mint_calls (snd (psycopg2_connect e tok w)) = mint_calls w"
  "trace (snd (psycopg2_connect e tok w)) = trace w @ [Open tok]"
  by (simp_all add: psycopg2_connect_def emit_def Let_def)

lemma pool_connect_Suc:
  "pool_connect e tok (Suc n) w =
     (if open_ok e (open_calls w)
      then (case pool_connect e tok n (snd (psycopg2_connect e tok w)) of
              (Inl err, w2) \<Rightarrow> (Inl err, w2)
            | (Inr cs, w2) \<Rightarrow> (Inr (created w # cs), w2))
      else (Inl ConnectError, snd (psycopg2_connect e tok w)))"
proof -
  obtain r w1 where c: "psycopg2_connect e tok w = (r, w1)"
    by (cases "psycopg2_connect e tok w")
  have r: "r = (if open_ok e (open_calls w) then Inr (created w) else Inl ConnectError)"
    using psycopg2_connect_result [of e tok w] c by simp
  show ?thesis
    using c by (simp add: r)
qed

lemma pool_connect_all_or_error:
  "(\<forall>cs. fst (pool_connect e tok n w) = Inr cs \<longrightarrow>
      length cs = n \<and> created (snd (pool_connect e tok n w)) = created w + n \<and>
      (\<forall>j<n. open_ok e (open_calls w + j))) \<and>
   (\<forall>err. fst (pool_connect e tok n w) = Inl err \<longrightarrow>
      err = ConnectError \<and> (\<exists>j<n. \<not> open_ok e (open_calls w + j)))"
proof (induction n arbitrary: w)
  case 0
  show ?case by simp
next
  case (Suc n)
  show ?case
  proof (cases "open_ok e (open_calls w)")
    case False
    then show ?thesis
      by (auto simp: pool_connect_Suc simp del: pool_connect.simps(2))
  next
    case True
    let ?w1 = "snd (psycopg2_connect e tok w)"
    have ih: "(\<forall>cs. fst (pool_connect e tok n ?w1) = Inr cs \<longrightarrow>
      length cs = n \<and> created (snd (pool_connect e tok n ?w1)) = created ?w1 + n \<and>
      (\<forall>j<n. open_ok e (open_calls ?w1 + j))) \<and>
      (\<forall>err. fst (pool_connect e tok n ?w1) = Inl err \<longrightarrow>
        err = ConnectError \<and> (\<exists>j<n. \<not> open_ok e (open_calls ?w1 + j)))"
      by (rule Suc.IH)
    obtain r w2 where c: "pool_connect e tok n ?w1 = (r, w2)"
      by (cases "pool_connect e tok n ?w1")
    show ?thesis
    proof (cases r)
      case (Inl err)
      with ih c obtain j where "j < n" "\<not> open_ok e (open_calls w + Suc j)" "err = ConnectError"
        by auto
      then have "\<exists>j<Suc n. \<not> open_ok e (open_calls w + j)"
        by (metis Suc_less_eq)
      with Inl c True \<open>err = ConnectError\<close> show ?thesis
        by (simp add: pool_connect_Suc del: pool_connect.simps(2))
    next
      case (Inr cs)
      with ih c True have l: "length cs = n" and cr: "created w2 = created w + 1 + n"
        and ok: "\<forall>j<n. open_ok e (open_calls w + Suc j)"
        by auto
      have "\<forall>j<Suc n. open_ok e (open_calls w + j)"
      proof (intro allI impI)
        fix j assume "j < Suc n"
        then show "open_ok e (open_calls w + j)"
          using True ok by (cases j) auto
      qed
      with Inr c True l cr show ?thesis
        by (simp add: pool_connect_Suc del: pool_connect.simps(2))
    qed
  qed
qed

lemma get_auth_token_result:
  "fst (get_auth_token e w) = (if mint_ok e (mint_calls w) then Inr (mint_calls w) else Inl AuthError)"
  by (simp add: get_auth_token_def Let_def)

lemma get_auth_token_fields [simp]:
  "open_calls (snd (get_auth_token e w)) = open_calls w"
  "created (snd (get_auth_token e w)) = created w"
  "mint_calls (snd (get_auth_token e w)) = mint_calls w + 1"
  "trace (snd (get_auth_token e w)) = trace w @ [Mint (mint_calls w)]"
  by (simp_all add: get_auth_token_def emit_def Let_def)

lemma manager_init_pool_unfold:
  "manager_init_pool e minc maxc w =
     (if mint_ok e (mint_calls w)
      then (case pool_connect e (mint_calls w) (nat minc) (snd (get_auth_token e w)) of
              (Inl err, w2) \<Rightarrow> (Inl err, w2)
            | (Inr cs, w2) \<Rightarrow>
                (Inr \<lparr>pm_minconn = minc, pm_maxconn = maxc, pm_password = mint_calls w,
                      pm_pool = cs\<rparr>, w2))
      else (Inl AuthError, snd (get_auth_token e w)))"
proof -
  obtain r w1 where c: "get_auth_token e w = (r, w1)"
    by (cases "get_auth_token e w")
  have r: "r = (if mint_ok e (mint_calls w) then Inr (mint_calls w) else Inl AuthError)"
    using get_auth_token_result [of e w] c by simp
  show ?thesis
    using c by (simp add: manager_init_pool_def ThreadedConnectionPool_def r)
qed

text \<open>
  C8, as stated, fails for the pool of \<^verbatim>\<open>psycopg2_connectionpooling.py\<close>: when the
  token service fails, or when the handshakes fail, its constructor raises.
\<close>

theorem manager_constructor_raises:
  "fst (DSQLPoolManager env_no_token 3 5 fresh_world) = Inl AuthError \<and>
   fst (DSQLPoolManager env_no_connect 3 5 fresh_world) = Inl ConnectError"
  by (simp add: DSQLPoolManager_def manager_init_pool_unfold pool_connect_Suc
        numeral_3_eq_3 example_defs del: pool_connect.simps(2))

text \<open>
  C8, amended. Building a \<^verbatim>\<open>DSQLCustomConnectionPool\<close> never raises: all \<^verbatim>\<open>minconn\<close>
  rounds of the pre-warm run, whatever failed in the rounds before; a failed token mint
  or handshake is logged and swallowed; the pool starts with no more idle connections
  than rounds succeeded (exactly as many when the queue has room for \<^verbatim>\<open>minconn\<close>
  connections), so with fewer than \<^verbatim>\<open>minconn\<close> when a round failed, and the counter
  equals the number of idle connections. Building a \<^verbatim>\<open>DSQLPoolManager\<close> is different: a
  failed token mint or a failed handshake of its pre-warm is raised out of the
  constructor, which therefore either raises or starts with all \<^verbatim>\<open>minconn\<close> connections.
\<close>

theorem prewarm_failures:
  "mint_calls (snd (DSQLCustomConnectionPool e minc maxc w)) = mint_calls w + nat minc \<and>
   created w \<le> created (snd (DSQLCustomConnectionPool e minc maxc w)) \<and>
   created (snd (DSQLCustomConnectionPool e minc maxc w)) \<le> created w + nat minc \<and>
   length (pool_q (fst (DSQLCustomConnectionPool e minc maxc w)))
     \<le> created (snd (DSQLCustomConnectionPool e minc maxc w)) - created w \<and>
   (maxc \<le> 0 \<or> minc \<le> maxc \<longrightarrow>
      length (pool_q (fst (DSQLCustomConnectionPool e minc maxc w)))
        = created (snd (DSQLCustomConnectionPool e minc maxc w)) - created w) \<and>
   (created (snd (DSQLCustomConnectionPool e minc maxc w)) < created w + nat minc \<longrightarrow>
      length (pool_q (fst (DSQLCustomConnectionPool e minc maxc w))) < nat minc) \<and>
   current_connections (fst (DSQLCustomConnectionPool e minc maxc w))
     = int (length (pool_q (fst (DSQLCustomConnectionPool e minc maxc w)))) \<and>
   (\<not> mint_ok e (mint_calls w) \<longrightarrow> fst (DSQLPoolManager e minc maxc w) = Inl AuthError) \<and>
   (mint_ok e (mint_calls w) \<and> (\<exists>j<nat minc. \<not> open_ok e (open_calls w + j)) \<longrightarrow>
      fst (DSQLPoolManager e minc maxc w) = Inl ConnectError) \<and>
   (\<forall>m. fst (DSQLPoolManager e minc maxc w) = Inr m \<longrightarrow> length (pm_pool m) = nat minc)"
proof -
  let ?p0 = "\<lparr>minconn = minc, maxconn = maxc, pool_q = [], current_connections = 0\<rparr>"
  have d: "DSQLCustomConnectionPool e minc maxc w = init_loop e (nat minc) ?p0 w"
    by (simp add: DSQLCustomConnectionPool_def init_pool_def)
  have c: "created w \<le> created (snd (init_loop e (nat minc) ?p0 w))"
          "created (snd (init_loop e (nat minc) ?p0 w)) \<le> created w + nat minc"
    using init_loop_created [where w = w and e = e and n = "nat minc" and p = ?p0] by simp_all
  have i: "length (pool_q (fst (init_loop e (nat minc) ?p0 w)))
             \<le> created (snd (init_loop e (nat minc) ?p0 w)) - created w"
    using init_loop_idle [where w = w and e = e and n = "nat minc" and p = ?p0] by simp
  have r: "maxc \<le> 0 \<or> minc \<le> maxc \<longrightarrow>
           length (pool_q (fst (init_loop e (nat minc) ?p0 w)))
             = created (snd (init_loop e (nat minc) ?p0 w)) - created w"
  proof
    assume "maxc \<le> 0 \<or> minc \<le> maxc"
    then have "maxconn ?p0 \<le> 0 \<or> int (length (pool_q ?p0)) + int (nat minc) \<le> maxconn ?p0"
      by auto
    from init_loop_idle_room [OF this, where e = e and w = w]
    show "length (pool_q (fst (init_loop e (nat minc) ?p0 w)))
             = created (snd (init_loop e (nat minc) ?p0 w)) - created w"
      by simp
  qed
  have k: "current_connections (fst (init_loop e (nat minc) ?p0 w))
             = int (length (pool_q (fst (init_loop e (nat minc) ?p0 w))))"
    using init_loop_counter [where w = w and e = e and n = "nat minc" and p = ?p0] by simp
  let ?w1 = "snd (get_auth_token e w)"
  note pc = pool_connect_all_or_error [where e = e and tok = "mint_calls w" and n = "nat minc" and w = ?w1]
  obtain r2 w2 where pcq: "pool_connect e (mint_calls w) (nat minc) ?w1 = (r2, w2)"
    by (cases "pool_connect e (mint_calls w) (nat minc) ?w1")
  have m1: "\<not> mint_ok e (mint_calls w) \<longrightarrow> fst (DSQLPoolManager e minc maxc w) = Inl AuthError"
    by (simp add: DSQLPoolManager_def manager_init_pool_unfold)
  have m2: "mint_ok e (mint_calls w) \<and> (\<exists>j<nat minc. \<not> open_ok e (open_calls w + j)) \<longrightarrow>
      fst (DSQLPoolManager e minc maxc w) = Inl ConnectError"
    using pc pcq by (cases r2) (auto simp: DSQLPoolManager_def manager_init_pool_unfold)
  have m3: "\<forall>m. fst (DSQLPoolManager e minc maxc w) = Inr m \<longrightarrow> length (pm_pool m) = nat minc"
    using pc pcq
    by (cases r2) (auto simp: DSQLPoolManager_def manager_init_pool_unfold split: if_splits)
  have lt: "created (snd (init_loop e (nat minc) ?p0 w)) < created w + nat minc \<longrightarrow>
      length (pool_q (fst (init_loop e (nat minc) ?p0 w))) < nat minc"
    using i c by linarith
  show ?thesis
    unfolding d using c i r k lt m1 m2 m3 by (intro conjI) simp_all
qed

theorem prewarm_failures_witness:
  "\<not> mint_ok env_no_token (mint_calls fresh_world) \<and>
   created (snd (DSQLCustomConnectionPool env_no_token 3 5 fresh_world))
     < created fresh_world + nat 3 \<and>
   mint_calls (snd (DSQLCustomConnectionPool env_no_token 3 5 fresh_world)) = 3 \<and>
   pool_q (fst (DSQLCustomConnectionPool env_no_token 3 5 fresh_world)) = [] \<and>
   current_connections (fst (DSQLCustomConnectionPool env_no_token 3 5 fresh_world)) = 0 \<and>
   fst (DSQLPoolManager env_no_token 3 5 fresh_world) = Inl AuthError"
proof -
  have h: "\<not> mint_ok env_no_token (mint_calls fresh_world)"
    by (simp add: example_defs)
  have c: "created (snd (DSQLCustomConnectionPool env_no_token 3 5 fresh_world)) = 0"
    by (simp add: DSQLCustomConnectionPool_def init_pool_def init_loop_Suc numeral_3_eq_3
          example_defs del: init_loop.simps(2))
  have f: "created fresh_world = 0" "mint_calls fresh_world = 0"
    by (simp_all add: fresh_world_def)
  show ?thesis
    using h c f prewarm_failures [where e = env_no_token and minc = 3 and maxc = 5 and w = fresh_world]
    by simp
qed

section \<open>One token for each handshake\<close>

lemma open_tokens_append [simp]:
  "open_tokens (xs @ ys) = open_tokens xs @ open_tokens ys"
  by (induction xs rule: open_tokens.induct) simp_all

lemma tokens_fresh_create:
  "tokens_fresh w \<Longrightarrow> tokens_fresh (snd (create_connection e w))"
  by (auto simp: tokens_fresh_def create_connection_trace less_Suc_eq)

lemma tokens_fresh_emit_lock [simp]:
  "tokens_fresh (emit [LockAcquire] w) = tokens_fresh w"
  "tokens_fresh (emit [LockRelease] w) = tokens_fresh w"
  "tokens_fresh (emit [LockAcquire, LockRelease] w) = tokens_fresh w"
  by (simp_all add: tokens_fresh_def)

lemma tokens_fresh_is_healthy [simp]:
  "tokens_fresh (snd (is_healthy e cw w)) = tokens_fresh w"
  by (simp add: tokens_fresh_def is_healthy_trace)

lemma tokens_fresh_wrapper_close [simp]:
  "tokens_fresh (wrapper_close cw w) = tokens_fresh w"
  by (simp add: tokens_fresh_def wrapper_close_trace)

lemma tokens_fresh_drain [simp]:
  "tokens_fresh (drain cws w) = tokens_fresh w"
  by (induction cws arbitrary: w) simp_all

lemma tokens_fresh_outside [simp]:
  "tokens_fresh (w\<lparr>closed_ids := X\<rparr>) = tokens_fresh w"
  "tokens_fresh (w\<lparr>now := n\<rparr>) = tokens_fresh w"
  by (simp_all add: tokens_fresh_def)

lemma tokens_fresh_get_connection:
  assumes "tokens_fresh w"
  shows "tokens_fresh (snd (snd (get_connection e p w)))"
proof (cases "pool_q p")
  case Nil
  with assms show ?thesis
    by (simp add: get_connection_unfold get_connection_body_empty tokens_fresh_create)
next
  case (Cons cw rest)
  with assms show ?thesis
    by (simp add: get_connection_unfold get_connection_body_idle tokens_fresh_create)
qed

lemma tokens_fresh_put_connection:
  "tokens_fresh w \<Longrightarrow> tokens_fresh (snd (put_connection cw p w))"
  by (simp add: put_connection_def)

lemma tokens_fresh_close_all:
  "tokens_fresh w \<Longrightarrow> tokens_fresh (snd (close_all p w))"
  by (simp add: close_all_def)

lemma tokens_fresh_init_loop:
  "tokens_fresh w \<Longrightarrow> tokens_fresh (snd (init_loop e n p w))"
  by (induction n arbitrary: p w)
     (simp_all add: init_loop_Suc tokens_fresh_create del: init_loop.simps(2))

lemma tokens_fresh_exec_op:
  assumes "tokens_fresh (fst (snd s))"
  shows "tokens_fresh (fst (snd (exec_op e x s)))"
proof -
  obtain p w held where s: "s = (p, w, held)" by (cases s)
  show ?thesis
  proof (cases x)
    case Acquire
    obtain r p' w' where g: "get_connection e p w = (r, p', w')"
      by (cases "get_connection e p w")
    have "tokens_fresh w'"
      using tokens_fresh_get_connection [of w e p] assms s g by simp
    with Acquire s g show ?thesis by (cases r) simp_all
  next
    case (Release i)
    obtain p' w' where g: "put_connection (held ! i) p w = (p', w')"
      by (cases "put_connection (held ! i) p w")
    have "tokens_fresh w'"
      using tokens_fresh_put_connection [of w "held ! i" p] assms s g by simp
    with Release s g assms show ?thesis by simp
  next
    case CloseAll
    obtain p' w' where g: "close_all p w = (p', w')"
      by (cases "close_all p w")
    have "tokens_fresh w'"
      using tokens_fresh_close_all [of w p] assms s g by simp
    with CloseAll s g show ?thesis by simp
  next
    case (Sever c)
    with s assms show ?thesis by simp
  next
    case (Tick n)
    with s assms show ?thesis by simp
  qed
qed

lemma tokens_fresh_run:
  "tokens_fresh (fst (snd s)) \<Longrightarrow> tokens_fresh (fst (snd (run e xs s)))"
  by (induction xs arbitrary: s) (simp_all add: tokens_fresh_exec_op)

lemma tokens_fresh_start: "tokens_fresh (fst (snd (start e minc maxc)))"
proof -
  have f: "tokens_fresh fresh_world"
    by (simp add: tokens_fresh_def fresh_world_def)
  let ?p0 = "\<lparr>minconn = minc, maxconn = maxc, pool_q = [], current_connections = 0\<rparr>"
  obtain p w where i: "init_loop e (nat minc) ?p0 fresh_world = (p, w)"
    by (cases "init_loop e (nat minc) ?p0 fresh_world")
  have "tokens_fresh w"
    using tokens_fresh_init_loop [OF f, of e "nat minc" ?p0] i by simp
  with i show ?thesis
    by (simp add: start_def DSQLCustomConnectionPool_def init_pool_def)
qed

lemma pool_connect_tokens:
  "\<exists>k\<le>n. open_tokens (trace (snd (pool_connect e tok n w)))
            = open_tokens (trace w) @ replicate k tok \<and>
          ((\<exists>cs. fst (pool_connect e tok n w) = Inr cs) \<longrightarrow> k = n) \<and>
          mint_calls (snd (pool_connect e tok n w)) = mint_calls w"
proof (induction n arbitrary: w)
  case 0
  show ?case by simp
next
  case (Suc n)
  show ?case
  proof (cases "open_ok e (open_calls w)")
    case False
    have "open_tokens (trace (snd (pool_connect e tok (Suc n) w)))
            = open_tokens (trace w) @ replicate 1 tok"
      using False by (simp add: pool_connect_Suc del: pool_connect.simps(2))
    moreover have "\<not> (\<exists>cs. fst (pool_connect e tok (Suc n) w) = Inr cs)"
      using False by (simp add: pool_connect_Suc del: pool_connect.simps(2))
    moreover have "mint_calls (snd (pool_connect e tok (Suc n) w)) = mint_calls w"
      using False by (simp add: pool_connect_Suc del: pool_connect.simps(2))
    moreover have "(1::nat) \<le> Suc n" by simp
    ultimately show ?thesis by blast
  next
    case True
    let ?w1 = "snd (psycopg2_connect e tok w)"
    obtain k where k: "k \<le> n"
      and t: "open_tokens (trace (snd (pool_connect e tok n ?w1)))
                = open_tokens (trace ?w1) @ replicate k tok"
      and a: "(\<exists>cs. fst (pool_connect e tok n ?w1) = Inr cs) \<longrightarrow> k = n"
      and m: "mint_calls (snd (pool_connect e tok n ?w1)) = mint_calls ?w1"
      using Suc.IH [of ?w1] by blast
    obtain r w2 where c: "pool_connect e tok n ?w1 = (r, w2)"
      by (cases "pool_connect e tok n ?w1")
    have t': "open_tokens (trace (snd (pool_connect e tok (Suc n) w)))
                = open_tokens (trace w) @ replicate (Suc k) tok"
      using True c t by (cases r) (simp_all add: pool_connect_Suc del: pool_connect.simps(2))
    have a': "(\<exists>cs. fst (pool_connect e tok (Suc n) w) = Inr cs) \<longrightarrow> Suc k = Suc n"
      using True c a by (cases r) (simp_all add: pool_connect_Suc del: pool_connect.simps(2))
    have m': "mint_calls (snd (pool_connect e tok (Suc n) w)) = mint_calls w"
      using True c m by (cases r) (simp_all add: pool_connect_Suc del: pool_connect.simps(2))
    from k have "Suc k \<le> Suc n" by simp
    with t' a' m' show ?thesis by blast
  qed
qed

text \<open>
  C5, as stated, fails for the pool of \<^verbatim>\<open>psycopg2_connectionpooling.py\<close>: its pre-warm
  of two connections calls the token service once and makes both handshakes with that
  one token.
\<close>

theorem manager_shares_token:
  "mint_calls (snd (DSQLPoolManager env_ok 2 5 fresh_world)) = 1 \<and>
   open_tokens (trace (snd (DSQLPoolManager env_ok 2 5 fresh_world))) = [0, 0] \<and>
   \<not> distinct (open_tokens (trace (snd (DSQLPoolManager env_ok 2 5 fresh_world))))"
  by (simp add: DSQLPoolManager_def manager_init_pool_unfold pool_connect_Suc
        numeral_2_eq_2 example_defs del: pool_connect.simps(2))

text \<open>
  C5, amended. In \<^verbatim>\<open>DSQLCustomConnectionPool\<close> every handshake has a token of its own:
  through the pre-warm and any later sequence of calls, no two handshakes use the token
  of the same \<^verbatim>\<open>get_auth_token\<close> call, and every token used comes from a call that was
  made. \<^verbatim>\<open>DSQLPoolManager\<close> instead calls the token service once when it builds its pool
  and all handshakes of the pre-warm use that one token; only its
  \<^verbatim>\<open>_create_single_connection\<close> mints a token for the handshake it makes.
\<close>

theorem token_per_handshake:
  "distinct (open_tokens (trace (fst (snd (run e xs (start e minc maxc)))))) \<and>
   (\<forall>t \<in> set (open_tokens (trace (fst (snd (run e xs (start e minc maxc)))))).
      t < mint_calls (fst (snd (run e xs (start e minc maxc))))) \<and>
   mint_calls (snd (DSQLPoolManager e minc maxc w)) = mint_calls w + 1 \<and>
   (\<exists>k\<le>nat minc.
      open_tokens (trace (snd (DSQLPoolManager e minc maxc w)))
        = open_tokens (trace w) @ replicate k (mint_calls w) \<and>
      ((\<exists>m. fst (DSQLPoolManager e minc maxc w) = Inr m) \<longrightarrow> k = nat minc)) \<and>
   open_tokens (trace (snd (create_single_connection e w)))
     = open_tokens (trace w) @ (if mint_ok e (mint_calls w) then [mint_calls w] else [])"
proof -
  have a: "tokens_fresh (fst (snd (run e xs (start e minc maxc))))"
    by (rule tokens_fresh_run [OF tokens_fresh_start])
  let ?w1 = "snd (get_auth_token e w)"
  obtain k where k: "k \<le> nat minc"
    and t: "open_tokens (trace (snd (pool_connect e (mint_calls w) (nat minc) ?w1)))
              = open_tokens (trace ?w1) @ replicate k (mint_calls w)"
    and s: "(\<exists>cs. fst (pool_connect e (mint_calls w) (nat minc) ?w1) = Inr cs) \<longrightarrow> k = nat minc"
    and m: "mint_calls (snd (pool_connect e (mint_calls w) (nat minc) ?w1)) = mint_calls ?w1"
    using pool_connect_tokens [of "nat minc" e "mint_calls w" ?w1] by blast
  obtain r w2 where c: "pool_connect e (mint_calls w) (nat minc) ?w1 = (r, w2)"
    by (cases "pool_connect e (mint_calls w) (nat minc) ?w1")
  have b: "mint_calls (snd (DSQLPoolManager e minc maxc w)) = mint_calls w + 1"
    using c m by (cases r) (simp_all add: DSQLPoolManager_def manager_init_pool_unfold)
  have d: "\<exists>k\<le>nat minc.
      open_tokens (trace (snd (DSQLPoolManager e minc maxc w)))
        = open_tokens (trace w) @ replicate k (mint_calls w) \<and>
      ((\<exists>m. fst (DSQLPoolManager e minc maxc w) = Inr m) \<longrightarrow> k = nat minc)"
  proof (cases "mint_ok e (mint_calls w)")
    case False
    have "open_tokens (trace (snd (DSQLPoolManager e minc maxc w)))
            = open_tokens (trace w) @ replicate 0 (mint_calls w)"
      using False by (simp add: DSQLPoolManager_def manager_init_pool_unfold)
    moreover have "\<not> (\<exists>m. fst (DSQLPoolManager e minc maxc w) = Inr m)"
      using False by (simp add: DSQLPoolManager_def manager_init_pool_unfold)
    ultimately show ?thesis by blast
  next
    case True
    have "open_tokens (trace (snd (DSQLPoolManager e minc maxc w)))
            = open_tokens (trace w) @ replicate k (mint_calls w)"
      using True c t by (cases r) (simp_all add: DSQLPoolManager_def manager_init_pool_unfold)
    moreover have "(\<exists>m. fst (DSQLPoolManager e minc maxc w) = Inr m) \<longrightarrow> k = nat minc"
      using True c s by (cases r) (simp_all add: DSQLPoolManager_def manager_init_pool_unfold)
    ultimately show ?thesis using k by blast
  qed
  have f: "open_tokens (trace (snd (create_single_connection e w)))
     = open_tokens (trace w) @ (if mint_ok e (mint_calls w) then [mint_calls w] else [])"
    by (simp add: create_single_connection_def get_auth_token_def psycopg2_connect_def
          emit_def Let_def)
  from a b d f show ?thesis
    unfolding tokens_fresh_def by blast
qed

theorem token_per_handshake_witness:
  "open_tokens (trace (fst (snd (run env_ok [Acquire, Acquire] (start env_ok 2 5))))) = [0, 1] \<and>
   distinct (open_tokens (trace (fst (snd (run env_ok [Acquire, Acquire] (start env_ok 2 5))))))"
proof -
  have s: "start env_ok 2 5 =
     (\<lparr>minconn = 2, maxconn = 5,
        pool_q = [\<lparr>conn_id = 0, created_at = 0\<rparr>, \<lparr>conn_id = 1, created_at = 0\<rparr>],
        current_connections = 2\<rparr>,
      \<lparr>mint_calls = 2, open_calls = 2, probe_calls = 0, created = 2, closed_ids = {},
        now = 0, trace = [Mint 0, Open 0, Mint 1, Open 1]\<rparr>, [])"
    by (simp add: start_def DSQLCustomConnectionPool_def init_pool_def init_loop_Suc
          numeral_2_eq_2 queue_full_def world_defs Let_def example_defs
          del: init_loop.simps(2))
  have t: "open_tokens (trace (fst (snd (run env_ok [Acquire, Acquire] (start env_ok 2 5)))))
             = [0, 1]"
    unfolding s
    by (simp add: get_connection_unfold get_connection_body_idle is_healthy_def emit_def
          Let_def env_ok_def)
  show ?thesis
    using t token_per_handshake [of env_ok "[Acquire, Acquire]" 2 5 fresh_world] by simp
qed

section \<open>The number of connections\<close>

lemma acquire_step:
  assumes g: "get_connection e p w = (r, p', w')"
  shows "maxconn p' = maxconn p \<and>
         (case r of
            Inl err \<Rightarrow>
              length (pool_q p') \<le> length (pool_q p) \<and>
              current_connections p' = current_connections p
          | Inr cw \<Rightarrow>
              (pool_q p = [] \<and> pool_q p' = [] \<and> current_connections p < maxconn p \<and>
               current_connections p' = current_connections p + 1) \<or>
              (length (pool_q p) = Suc (length (pool_q p')) \<and>
               current_connections p' = current_connections p))"
proof -
  have r: "r = fst (get_connection e p w)" and p': "p' = fst (snd (get_connection e p w))"
    using g by simp_all
  show ?thesis
  proof (cases "pool_q p")
    case Nil
    then show ?thesis
      unfolding r p'
      by (simp add: get_connection_unfold get_connection_body_empty create_connection_result)
  next
    case (Cons cw rest)
    then show ?thesis
      unfolding r p'
      by (simp add: get_connection_unfold get_connection_body_idle create_connection_result
            split: sum.splits)
  qed
qed

lemma exec_op_maxconn [simp]: "maxconn (fst (exec_op e x s)) = maxconn (fst s)"
proof -
  obtain p w held where s: "s = (p, w, held)" by (cases s)
  show ?thesis
  proof (cases x)
    case Acquire
    obtain r p' w' where g: "get_connection e p w = (r, p', w')"
      by (cases "get_connection e p w")
    from acquire_step [OF g] Acquire s g show ?thesis by (cases r) simp_all
  next
    case (Release i)
    with s show ?thesis by (simp add: put_connection_def)
  next
    case CloseAll
    with s show ?thesis by (simp add: close_all_def)
  next
    case (Sever c)
    with s show ?thesis by simp
  next
    case (Tick n)
    with s show ?thesis by simp
  qed
qed

lemma run_maxconn [simp]: "maxconn (fst (run e xs s)) = maxconn (fst s)"
  by (induction xs arbitrary: s) simp_all

lemma length_remove_nth:
  "i < length held \<Longrightarrow> Suc (length (take i held @ drop (Suc i) held)) = length held"
  by simp

lemma counter_bounded_exec_op:
  assumes "counter_bounded s"
  shows "counter_bounded (exec_op e x s)"
proof -
  obtain p w held where s: "s = (p, w, held)" by (cases s)
  show ?thesis
  proof (cases x)
    case Acquire
    obtain r p' w' where g: "get_connection e p w = (r, p', w')"
      by (cases "get_connection e p w")
    from acquire_step [OF g] Acquire s g assms show ?thesis
      by (cases r) (auto simp: counter_bounded_def)
  next
    case (Release i)
    with s assms show ?thesis
      by (auto simp: counter_bounded_def put_connection_def queue_full_def)
  next
    case CloseAll
    with s assms show ?thesis by (simp add: counter_bounded_def close_all_def)
  next
    case (Sever c)
    with s assms show ?thesis by (simp add: counter_bounded_def)
  next
    case (Tick n)
    with s assms show ?thesis by (simp add: counter_bounded_def)
  qed
qed

lemma counter_bounded_run:
  "counter_bounded s \<Longrightarrow> counter_bounded (run e xs s)"
  by (induction xs arbitrary: s) (simp_all add: counter_bounded_exec_op)

lemma all_counted_exec_op:
  assumes a: "all_counted s" and b: "counter_bounded s"
    and c: "x = CloseAll \<longrightarrow> snd (snd s) = []"
  shows "all_counted (exec_op e x s)"
proof -
  obtain p w held where s: "s = (p, w, held)" by (cases s)
  show ?thesis
  proof (cases x)
    case Acquire
    obtain r p' w' where g: "get_connection e p w = (r, p', w')"
      by (cases "get_connection e p w")
    from acquire_step [OF g] Acquire s g a show ?thesis
      by (cases r) (auto simp: all_counted_def)
  next
    case (Release i)
    show ?thesis
    proof (cases "i < length held")
      case True
      define held' where "held' = take i held @ drop (Suc i) held"
      have l: "int (length held') = int (length held) - 1"
        using length_remove_nth [OF True] unfolding held'_def by linarith
      have ex: "exec_op e x s =
                  (case put_connection (held ! i) p w of (p', w') \<Rightarrow> (p', w', held'))"
        using True Release s by (simp add: held'_def)
      show ?thesis
        unfolding ex using a s l by (simp add: all_counted_def put_connection_def)
    next
      case False
      with Release s a show ?thesis by simp
    qed
  next
    case CloseAll
    with s c show ?thesis by (simp add: all_counted_def close_all_def)
  next
    case (Sever c)
    with s a show ?thesis by (simp add: all_counted_def)
  next
    case (Tick n)
    with s a show ?thesis by (simp add: all_counted_def)
  qed
qed

lemma all_counted_run:
  "all_counted s \<Longrightarrow> counter_bounded s \<Longrightarrow> close_all_when_idle e xs s \<Longrightarrow>
   all_counted (run e xs s)"
proof (induction xs arbitrary: s)
  case Nil
  then show ?case by simp
next
  case (Cons x xs)
  have "all_counted (exec_op e x s)"
    using Cons.prems by (intro all_counted_exec_op) simp_all
  moreover have "counter_bounded (exec_op e x s)"
    using Cons.prems by (intro counter_bounded_exec_op)
  ultimately show ?case
    using Cons.IH [of "exec_op e x s"] Cons.prems by simp
qed

lemma start_counted:
  assumes "1 \<le> maxc"
  shows "all_counted (start e minc maxc) \<and> counter_bounded (start e minc maxc) \<and>
         maxconn (fst (start e minc maxc)) = maxc"
proof -
  let ?p0 = "\<lparr>minconn = minc, maxconn = maxc, pool_q = [], current_connections = 0\<rparr>"
  obtain p w where i: "init_loop e (nat minc) ?p0 fresh_world = (p, w)"
    by (cases "init_loop e (nat minc) ?p0 fresh_world")
  have st: "start e minc maxc = (p, w, [])"
    using i by (simp add: start_def DSQLCustomConnectionPool_def init_pool_def)
  have m: "maxconn p = maxc"
    using init_loop_config(1) [of e "nat minc" ?p0 fresh_world] i by simp
  have k: "current_connections p = int (length (pool_q p))"
    using init_loop_counter [of e "nat minc" ?p0 fresh_world] i by simp
  have b: "int (length (pool_q p)) \<le> maxc"
    using init_loop_bounded [of ?p0 e "nat minc" fresh_world] assms i by simp
  show ?thesis
    using st m k b assms by (simp add: all_counted_def counter_bounded_def)
qed

lemma set_live: "set (live w) = {c. c < created w \<and> c \<notin> closed_ids w}"
  by (auto simp: live_def)

lemma length_live_le:
  assumes "all_tracked (p, w, held)"
  shows "length (live w) \<le> length (pool_q p) + length held"
proof -
  have d: "distinct (live w)" by (simp add: live_def)
  have "length (live w) = card (set (live w))"
    using d by (simp add: distinct_card)
  also have "\<dots> \<le> card (conn_id ` set (pool_q p) \<union> conn_id ` set held)"
    using assms by (intro card_mono) (simp_all add: all_tracked_def)
  also have "\<dots> \<le> card (conn_id ` set (pool_q p)) + card (conn_id ` set held)"
    by (rule card_Un_le)
  also have "\<dots> \<le> card (set (pool_q p)) + card (set held)"
    by (intro add_mono card_image_le) simp_all
  also have "\<dots> \<le> length (pool_q p) + length held"
    by (intro add_mono card_length)
  finally show ?thesis .
qed

lemma held_remove_nth:
  assumes "i < length held" and "x \<in> set held"
  shows "x = held ! i \<or> x \<in> set (take i held @ drop (Suc i) held)"
proof -
  have "set (take i held @ drop i held) = set (take i held) \<union> set (drop i held)"
    by (rule set_append)
  then have a: "set held = set (take i held) \<union> set (drop i held)"
    by simp
  have b: "drop i held = held ! i # drop (Suc i) held"
    using assms(1) by (simp add: Cons_nth_drop_Suc)
  have "x \<in> set (take i held) \<or> x \<in> set (held ! i # drop (Suc i) held)"
    using assms(2) a b by auto
  then show ?thesis by auto
qed

lemma all_tracked_exec_op:
  assumes a: "all_tracked s"
  shows "all_tracked (exec_op e x s)"
proof -
  obtain p w held where s: "s = (p, w, held)" by (cases s)
  have t: "\<forall>c. c < created w \<and> c \<notin> closed_ids w \<longrightarrow>
             c \<in> conn_id ` set (pool_q p) \<or> c \<in> conn_id ` set held"
    using a s by (auto simp: all_tracked_def set_live)
  show ?thesis
  proof (cases x)
    case Acquire
    obtain r p' w' where g: "get_connection e p w = (r, p', w')"
      by (cases "get_connection e p w")
    have r: "r = fst (get_connection e p w)" and p': "p' = fst (snd (get_connection e p w))"
      and w': "w' = snd (snd (get_connection e p w))"
      using g by simp_all
    show ?thesis
    proof (cases "pool_q p")
      case Nil
      have "all_tracked (case r of Inl err \<Rightarrow> (p', w', held) | Inr cw \<Rightarrow> (p', w', held @ [cw]))"
        using t Nil unfolding r p' w'
        by (auto simp: all_tracked_def set_live get_connection_unfold
              get_connection_body_empty create_connection_result less_Suc_eq)
      with Acquire s g show ?thesis by (cases r) simp_all
    next
      case (Cons cw rest)
      have "all_tracked (case r of Inl err \<Rightarrow> (p', w', held) | Inr cw \<Rightarrow> (p', w', held @ [cw]))"
        using t Cons unfolding r p' w'
        by (auto simp: all_tracked_def set_live get_connection_unfold
              get_connection_body_idle create_connection_result less_Suc_eq)
      with Acquire s g show ?thesis by (cases r) simp_all
    qed
  next
    case (Release i)
    show ?thesis
    proof (cases "i < length held")
      case True
      have h: "\<forall>x \<in> set held. x = held ! i \<or> x \<in> set (take i held @ drop (Suc i) held)"
        using held_remove_nth [OF True] by blast
      define held' where "held' = take i held @ drop (Suc i) held"
      have ex: "exec_op e x s =
                  (case put_connection (held ! i) p w of (p', w') \<Rightarrow> (p', w', held'))"
        using True Release s by (simp add: held'_def)
      have h': "\<forall>x \<in> set held. x = held ! i \<or> x \<in> set held'"
        using h by (simp add: held'_def)
      have h'': "\<forall>c \<in> conn_id ` set held. c = conn_id (held ! i) \<or> c \<in> conn_id ` set held'"
        using h' by auto
      have t': "\<forall>c. c < created w \<and> c \<notin> closed_ids w \<longrightarrow>
                 c \<in> conn_id ` set (pool_q p) \<or> c = conn_id (held ! i) \<or>
                 c \<in> conn_id ` set held'"
        using t h'' by blast
      show ?thesis
        unfolding ex using t'
        by (auto simp: all_tracked_def set_live put_connection_def)
    next
      case False
      with Release s a show ?thesis by simp
    qed
  next
    case CloseAll
    with s t show ?thesis
      by (auto simp: all_tracked_def set_live close_all_def)
  next
    case (Sever c)
    with s t show ?thesis by (auto simp: all_tracked_def set_live)
  next
    case (Tick n)
    with s t show ?thesis by (auto simp: all_tracked_def set_live)
  qed
qed

lemma all_tracked_run: "all_tracked s \<Longrightarrow> all_tracked (run e xs s)"
  by (induction xs arbitrary: s) (simp_all add: all_tracked_exec_op)

lemma all_tracked_init_loop:
  "all_tracked (p, w, []) \<Longrightarrow>
   maxconn p \<le> 0 \<or> int (length (pool_q p)) + int n \<le> maxconn p \<Longrightarrow>
   all_tracked (fst (init_loop e n p w), snd (init_loop e n p w), [])"
proof (induction n arbitrary: p w)
  case 0
  then show ?case by simp
next
  case (Suc n)
  have nf: "\<not> queue_full p"
    using Suc.prems(2) by (auto simp: queue_full_def)
  let ?w1 = "snd (create_connection e w)"
  show ?case
  proof (cases "mint_ok e (mint_calls w) \<and> open_ok e (open_calls w)")
    case True
    let ?p1 = "p\<lparr>pool_q := pool_q p @ [\<lparr>conn_id = created w, created_at = now w\<rparr>],
                  current_connections := current_connections p + 1\<rparr>"
    have "all_tracked (?p1, ?w1, [])"
      using Suc.prems(1) True by (auto simp: all_tracked_def set_live less_Suc_eq)
    moreover have "maxconn ?p1 \<le> 0 \<or> int (length (pool_q ?p1)) + int n \<le> maxconn ?p1"
      using Suc.prems(2) by auto
    ultimately have "all_tracked (fst (init_loop e n ?p1 ?w1), snd (init_loop e n ?p1 ?w1), [])"
      by (rule Suc.IH)
    with True nf show ?thesis
      by (simp add: init_loop_Suc del: init_loop.simps(2))
  next
    case False
    have "all_tracked (p, ?w1, [])"
      using Suc.prems(1) False by (auto simp: all_tracked_def set_live)
    moreover have "maxconn p \<le> 0 \<or> int (length (pool_q p)) + int n \<le> maxconn p"
      using Suc.prems(2) by auto
    ultimately have "all_tracked (fst (init_loop e n p ?w1), snd (init_loop e n p ?w1), [])"
      by (rule Suc.IH)
    with False show ?thesis
      by (auto simp: init_loop_Suc simp del: init_loop.simps(2))
  qed
qed

lemma start_tracked:
  assumes "minc \<le> maxc"
  shows "all_tracked (start e minc maxc)"
proof -
  let ?p0 = "\<lparr>minconn = minc, maxconn = maxc, pool_q = [], current_connections = 0\<rparr>"
  have "all_tracked (?p0, fresh_world, [])"
    by (simp add: all_tracked_def live_def fresh_world_def)
  moreover have "maxconn ?p0 \<le> 0 \<or> int (length (pool_q ?p0)) + int (nat minc) \<le> maxconn ?p0"
    using assms by auto
  ultimately have "all_tracked (fst (init_loop e (nat minc) ?p0 fresh_world),
                                snd (init_loop e (nat minc) ?p0 fresh_world), [])"
    by (rule all_tracked_init_loop)
  then show ?thesis
    by (auto simp: start_def DSQLCustomConnectionPool_def init_pool_def split: prod.splits)
qed

text \<open>
  C1. The pool tries to keep the invariant and \<^verbatim>\<open>close_all\<close> breaks it. A pool with
  \<^verbatim>\<open>minconn=0, maxconn=1\<close> hands out connection 0; \<^verbatim>\<open>close_all\<close> sets the counter to zero
  although that connection is still checked out and open; the next \<^verbatim>\<open>get_connection\<close>
  finds the counter below \<^verbatim>\<open>maxconn\<close> and opens connection 1. Two connections are
  checked out and two physical connections are live, with \<^verbatim>\<open>maxconn\<close> at 1.
\<close>

theorem close_all_forgets_checked_out:
  "maxconn (fst (run env_ok [Acquire, CloseAll, Acquire] (start env_ok 0 1))) = 1 \<and>
   pool_q (fst (run env_ok [Acquire, CloseAll, Acquire] (start env_ok 0 1))) = [] \<and>
   snd (snd (run env_ok [Acquire, CloseAll, Acquire] (start env_ok 0 1)))
     = [\<lparr>conn_id = 0, created_at = 0\<rparr>, \<lparr>conn_id = 1, created_at = 0\<rparr>] \<and>
   live (fst (snd (run env_ok [Acquire, CloseAll, Acquire] (start env_ok 0 1)))) = [0, 1] \<and>
   current_connections (fst (run env_ok [Acquire, CloseAll, Acquire] (start env_ok 0 1))) = 1 \<and>
   \<not> within_limit (run env_ok [Acquire, CloseAll, Acquire] (start env_ok 0 1))"
proof -
  have s: "start env_ok 0 1 = (pool0, fresh_world, [])"
    by (simp add: start_def DSQLCustomConnectionPool_def init_pool_def pool0_def)
  have r: "run env_ok [Acquire, CloseAll, Acquire] (pool0, fresh_world, []) =
     (pool0\<lparr>current_connections := 1\<rparr>,
      \<lparr>mint_calls = 2, open_calls = 2, probe_calls = 0, created = 2, closed_ids = {},
        now = 0,
        trace = [LockAcquire, Mint 0, Open 0, LockRelease, LockAcquire, LockRelease,
                 LockAcquire, Mint 1, Open 1, LockRelease]\<rparr>,
      [\<lparr>conn_id = 0, created_at = 0\<rparr>, \<lparr>conn_id = 1, created_at = 0\<rparr>])"
    by (simp add: get_connection_def get_connection_body_def close_all_def world_defs
          Let_def example_defs)
  have l: "[0..<2] = [0, Suc 0]"
    by (simp add: numeral_2_eq_2)
  show ?thesis
    unfolding s r by (simp add: within_limit_def live_def pool0_def l)
qed

text \<open>
  The pre-warm has a slip of its own. With \<^verbatim>\<open>minconn=3, maxconn=1\<close> the queue is full
  after the first round; the connections of the other two rounds are opened, meet
  \<^verbatim>\<open>queue.Full\<close>, and are neither pooled, counted nor closed: three physical connections
  are live behind a counter of 1.
\<close>

lemma prewarm_overflow_leaks:
  "pool_q (fst (start env_ok 3 1)) = [\<lparr>conn_id = 0, created_at = 0\<rparr>] \<and>
   current_connections (fst (start env_ok 3 1)) = 1 \<and>
   maxconn (fst (start env_ok 3 1)) = 1 \<and>
   live (fst (snd (start env_ok 3 1))) = [0, 1, 2]"
proof -
  have s: "start env_ok 3 1 =
     (\<lparr>minconn = 3, maxconn = 1, pool_q = [\<lparr>conn_id = 0, created_at = 0\<rparr>],
        current_connections = 1\<rparr>,
      \<lparr>mint_calls = 3, open_calls = 3, probe_calls = 0, created = 3, closed_ids = {},
        now = 0, trace = [Mint 0, Open 0, Mint 1, Open 1, Mint 2, Open 2]\<rparr>, [])"
    by (simp add: start_def DSQLCustomConnectionPool_def init_pool_def init_loop_Suc
          numeral_3_eq_3 numeral_2_eq_2 queue_full_def world_defs Let_def env_ok_def
          fresh_world_def del: init_loop.simps(2))
  have l: "[0..<3] = [0, 1, 2]"
    by (simp add: numeral_3_eq_3 numeral_2_eq_2)
  show ?thesis
    unfolding s by (simp add: live_def l)
qed

text \<open>
  Apart from these two slips the bookkeeping keeps the limit. For a pool built with
  \<^verbatim>\<open>maxconn >= 1\<close>, after the pre-warm and any sequence of \<^verbatim>\<open>get_connection\<close>,
  \<^verbatim>\<open>put_connection\<close> of a checked-out connection and \<^verbatim>\<open>close_all\<close> calls, the counter and
  the number of idle connections are at most \<^verbatim>\<open>maxconn\<close>. If \<^verbatim>\<open>close_all\<close> is only called
  while no connection is checked out, the idle and the checked-out connections together
  are at most the counter, hence at most \<^verbatim>\<open>maxconn\<close>; and if moreover
  \<^verbatim>\<open>minconn <= maxconn\<close>, so are the live physical connections.
\<close>

lemma limit_kept:
  assumes "1 \<le> maxc"
  shows "maxconn (fst (run e xs (start e minc maxc))) = maxc \<and>
         current_connections (fst (run e xs (start e minc maxc))) \<le> maxc \<and>
         int (length (pool_q (fst (run e xs (start e minc maxc))))) \<le> maxc \<and>
         (close_all_when_idle e xs (start e minc maxc) \<longrightarrow>
            int (length (pool_q (fst (run e xs (start e minc maxc))))) +
            int (length (snd (snd (run e xs (start e minc maxc)))))
              \<le> current_connections (fst (run e xs (start e minc maxc))) \<and>
            within_limit (run e xs (start e minc maxc)) \<and>
            (minc \<le> maxc \<longrightarrow>
               int (length (live (fst (snd (run e xs (start e minc maxc)))))) \<le> maxc))"
proof -
  let ?s = "start e minc maxc"
  obtain p w held where r: "run e xs ?s = (p, w, held)" by (cases "run e xs ?s")
  have m: "maxconn p = maxc"
    using run_maxconn [of e xs ?s] start_counted [OF assms, of e minc] r by simp
  have b: "counter_bounded (run e xs ?s)"
    using start_counted [OF assms, of e minc] by (intro counter_bounded_run) simp
  have c: "close_all_when_idle e xs ?s \<longrightarrow> all_counted (run e xs ?s)"
    using start_counted [OF assms, of e minc] by (auto intro: all_counted_run)
  have t: "minc \<le> maxc \<longrightarrow> length (live w) \<le> length (pool_q p) + length held"
  proof
    assume "minc \<le> maxc"
    then have "all_tracked (run e xs ?s)"
      by (intro all_tracked_run start_tracked)
    then show "length (live w) \<le> length (pool_q p) + length held"
      unfolding r by (rule length_live_le)
  qed
  show ?thesis
    using m b c t unfolding r
    by (auto simp: counter_bounded_def all_counted_def within_limit_def)
qed

lemma limit_kept_example:
  "(1::int) \<le> 1 \<and> close_all_when_idle env_ok [Acquire, Release 0, CloseAll, Acquire] (start env_ok 0 1) \<and>
   within_limit (run env_ok [Acquire, Release 0, CloseAll, Acquire] (start env_ok 0 1)) \<and>
   current_connections (fst (run env_ok [Acquire, Release 0, CloseAll, Acquire] (start env_ok 0 1)))
     \<le> 1"
proof -
  have h: "(1::int) \<le> 1" by simp
  have s: "start env_ok 0 1 = (pool0, fresh_world, [])"
    by (simp add: start_def DSQLCustomConnectionPool_def init_pool_def pool0_def)
  have q: "close_all_when_idle env_ok [Acquire, Release 0, CloseAll, Acquire] (start env_ok 0 1)"
    unfolding s
    by (simp add: get_connection_def get_connection_body_def put_connection_def queue_full_def
          close_all_def world_defs Let_def example_defs)
  show ?thesis
    using q limit_kept [OF h, of env_ok "[Acquire, Release 0, CloseAll, Acquire]" 0] by simp
qed

end
